theory Spec2Isabelle
  imports Complex_Main "HOL-Library.Char_ord" "HOL-Library.List_Lexorder"
begin

section \<open>Data model (src/types/models.ts)\<close>

text \<open>
  JavaScript strings are modelled as \<^typ>\<open>string\<close>: lists of 8-bit characters, read as the
  code units below 256. \<open>null\<close> and \<open>undefined\<close> of an optional field are \<open>None\<close>.
  Field names carry a prefix per record (\<open>s_\<close> for Session, \<open>m_\<close> for Message), since the
  interfaces of the source share the names \<open>id\<close>, \<open>cwd\<close>, \<open>file_path\<close>.
\<close>

record Session =
  s_id :: string
  s_file_path :: string
  s_project_id :: "nat option"
  s_project_path :: "string option"
  s_cwd :: "string option"
  s_started_at :: string
  s_ended_at :: "string option"
  s_message_count :: int
  s_title :: "string option"
  s_summary :: "string option"
  s_is_title_auto_generated :: bool
  s_is_stub :: bool
  s_created_at :: string
  s_updated_at :: string

record Message =
  m_id :: nat
  m_uuid :: string
  m_session_id :: string
  m_role :: string
  m_content :: string
  m_timestamp :: string
  m_model :: "string option"
  m_parent_uuid :: "string option"
  m_message_type :: "string option"
  m_cwd :: "string option"
  m_file_path :: "string option"
  m_content_hash :: "string option"
  m_token_count :: "nat option"
  m_created_at :: string

section \<open>ChunkManager (src/services/ChunkManager.ts)\<close>

datatype chunk_kind = message_pair | topic_group_kind

record ConversationChunk =
  chunk_id :: string
  session_id :: string
  sequence_number :: nat
  chunk_type :: chunk_kind
  content :: string
  user_message :: "string option"
  assistant_message :: "string option"
  timestamp :: string
  processing_date :: string
  project_path :: "string option"
  message_count :: nat
  previous_chunk :: "string option"
  next_chunk :: "string option"
  topic_group :: "string option"
  token_count :: nat

record MessagePair =
  userMessage :: "Message option"
  assistantMessage :: "Message option"
  pair_timestamp :: string

record TopicGroup =
  topic :: string
  pairs :: "MessagePair list"

subsection \<open>String helpers of the JavaScript runtime\<close>

text \<open>Template-literal rendering of a non-negative integer: its decimal digits.\<close>

fun string_of_nat :: "nat \<Rightarrow> string" where
  "string_of_nat n =
     (if n < 10 then [char_of (48 + n)]
      else string_of_nat (n div 10) @ [char_of (48 + n mod 10)])"

declare string_of_nat.simps [simp del]

text \<open>\<open>\w\<close> of a regular expression without the \<open>u\<close> flag: \<open>[A-Za-z0-9_]\<close>.\<close>

definition wordChar :: "char \<Rightarrow> bool" where
  "wordChar c =
     (let n = (of_char c :: nat)
      in (48 \<le> n \<and> n \<le> 57) \<or> (65 \<le> n \<and> n \<le> 90) \<or> n = 95 \<or> (97 \<le> n \<and> n \<le> 122))"

text \<open>\<open>String.prototype.toLowerCase\<close> on code units below 256.\<close>

definition toLowerCase_char :: "char \<Rightarrow> char" where
  "toLowerCase_char c =
     (let n = (of_char c :: nat)
      in if (65 \<le> n \<and> n \<le> 90) \<or> (192 \<le> n \<and> n \<le> 222 \<and> n \<noteq> 215)
         then char_of (n + 32) else c)"

definition toLowerCase :: "string \<Rightarrow> string" where
  "toLowerCase s = map toLowerCase_char s"

text \<open>White space as \<open>String.prototype.trim\<close> sees it, on code units below 256.\<close>

definition isSpace :: "char \<Rightarrow> bool" where
  "isSpace c = (let n = (of_char c :: nat) in (9 \<le> n \<and> n \<le> 13) \<or> n = 32 \<or> n = 160)"

definition trim :: "string \<Rightarrow> string" where
  "trim s = rev (dropWhile isSpace (rev (dropWhile isSpace s)))"

text \<open>\<open>s.substring(0, n)\<close> for \<open>n \<ge> 0\<close>.\<close>

definition substring0 :: "string \<Rightarrow> nat \<Rightarrow> string" where
  "substring0 s n = take n s"

text \<open>\<open>s.lastIndexOf(c)\<close> for a one-character needle: the last index, or \<open>-1\<close>.\<close>

fun lastIndexOf_from :: "nat \<Rightarrow> int \<Rightarrow> char \<Rightarrow> string \<Rightarrow> int" where
  "lastIndexOf_from i found c [] = found"
| "lastIndexOf_from i found c (x # xs) =
     lastIndexOf_from (Suc i) (if x = c then int i else found) c xs"

definition lastIndexOf :: "string \<Rightarrow> char \<Rightarrow> int" where
  "lastIndexOf s c = lastIndexOf_from 0 (- 1) c s"

subsection \<open>Pairing\<close>

fun createMessagePairs :: "Message list \<Rightarrow> MessagePair list" where
  "createMessagePairs [] = []"
| "createMessagePairs (message # rest) =
     (if m_role message = ''user'' then
        (case rest of
           [] \<Rightarrow>
             [\<lparr>userMessage = Some message, assistantMessage = None,
               pair_timestamp = m_timestamp message\<rparr>]
         | nextMessage # rest' \<Rightarrow>
             if m_role nextMessage = ''assistant'' then
               \<lparr>userMessage = Some message, assistantMessage = Some nextMessage,
                pair_timestamp =
                  (if m_timestamp nextMessage \<noteq> [] then m_timestamp nextMessage
                   else m_timestamp message)\<rparr>
               # createMessagePairs rest'
             else
               \<lparr>userMessage = Some message, assistantMessage = None,
                pair_timestamp = m_timestamp message\<rparr>
               # createMessagePairs rest)
      else if m_role message = ''assistant'' then
        \<lparr>userMessage = None, assistantMessage = Some message,
         pair_timestamp = m_timestamp message\<rparr>
        # createMessagePairs rest
      else createMessagePairs rest)"

subsection \<open>Topic extraction\<close>

text \<open>The alternatives of the keyword pattern, in the order of the source.\<close>

definition topic_keywords :: "string list" where
  "topic_keywords =
     [''react'', ''database'', ''git'', ''typescript'', ''python'', ''api'', ''server'',
      ''component'', ''function'', ''error'', ''bug'', ''feature'', ''implement'', ''create'',
      ''build'', ''fix'', ''test'', ''optimization'', ''performance'', ''security'',
      ''authentication'', ''deployment'', ''docker'', ''npm'', ''package'', ''library'',
      ''framework'', ''mcp'', ''claude'', ''hook'', ''skill'', ''command'', ''vector'',
      ''embedding'', ''search'', ''index'', ''sqlite'', ''chromadb'']"

text \<open>
  An alternative \<open>kw\<close> matches at the head of \<open>s\<close> when \<open>s\<close> starts with it and the
  closing \<open>\b\<close> holds: the last character of \<open>kw\<close> and the character after it (if any)
  differ in being word characters.
\<close>

definition matches_here :: "string \<Rightarrow> string \<Rightarrow> bool" where
  "matches_here kw s =
     (take (length kw) s = kw \<and>
      (let rest = drop (length kw) s
       in wordChar (last kw) \<noteq> (case rest of [] \<Rightarrow> False | c # _ \<Rightarrow> wordChar c)))"

text \<open>
  \<open>text.match(/\b(?:react|...)\b/g)\<close>: scan left to right. \<open>pw\<close> says whether the previous
  character is a word character (\<open>False\<close> at the start); \<open>k\<close> counts the characters of the
  last match still to be stepped over. At a position where the opening \<open>\b\<close> holds the
  first alternative that matches is taken and scanning resumes behind it.
\<close>

fun match_keywords :: "bool \<Rightarrow> nat \<Rightarrow> string \<Rightarrow> string list" where
  "match_keywords pw k [] = []"
| "match_keywords pw k (c # cs) =
     (if 0 < k then match_keywords (wordChar c) (k - 1) cs
      else if pw \<noteq> wordChar c then
        (case find (\<lambda>kw. matches_here kw (c # cs)) topic_keywords of
           Some kw \<Rightarrow> kw # match_keywords (wordChar c) (length kw - 1) cs
         | None \<Rightarrow> match_keywords (wordChar c) 0 cs)
      else match_keywords (wordChar c) 0 cs)"

text \<open>The \<open>reduce\<close> that counts keywords: an object's own keys keep insertion order.\<close>

fun count_keyword :: "(string \<times> nat) list \<Rightarrow> string \<Rightarrow> (string \<times> nat) list" where
  "count_keyword [] keyword = [(keyword, 1)]"
| "count_keyword ((k, n) # acc) keyword =
     (if k = keyword then (k, n + 1) # acc else (k, n) # count_keyword acc keyword)"

definition keywordCounts :: "string list \<Rightarrow> (string \<times> nat) list" where
  "keywordCounts keywords = foldl count_keyword [] keywords"

text \<open>
  \<open>Object.entries(counts).sort(([, a], [, b]) => b - a)[0][0]\<close>: a stable sort by
  descending count, then the first key. \<^const>\<open>sort_key\<close> is a stable insertion sort.
\<close>

definition topKeyword :: "(string \<times> nat) list \<Rightarrow> string" where
  "topKeyword entries = fst (hd (sort_key (\<lambda>(k, n). - int n) entries))"

definition pair_content :: "Message option \<Rightarrow> string" where
  "pair_content m = (case m of None \<Rightarrow> [] | Some x \<Rightarrow> m_content x)"

definition extractTopic :: "MessagePair \<Rightarrow> string" where
  "extractTopic pair =
     (let text = pair_content (userMessage pair) @ '' '' @ pair_content (assistantMessage pair);
          keywords = match_keywords False 0 (toLowerCase text)
      in if keywords \<noteq> [] then topKeyword (keywordCounts keywords) else ''general'')"

definition relatedTopics :: "string list list" where
  "relatedTopics =
     [[''react'', ''component'', ''typescript'', ''javascript''],
      [''database'', ''sqlite'', ''sql'', ''query'', ''chromadb''],
      [''git'', ''commit'', ''branch'', ''repository''],
      [''server'', ''api'', ''endpoint'', ''http''],
      [''test'', ''testing'', ''jest'', ''spec''],
      [''deployment'', ''docker'', ''container'', ''build''],
      [''mcp'', ''claude'', ''hook'', ''skill'', ''command''],
      [''vector'', ''embedding'', ''search'', ''index'']]"

definition isTopicSimilar :: "string \<Rightarrow> string \<Rightarrow> bool" where
  "isTopicSimilar topic1 topic2 =
     (if topic1 = topic2 then True
      else list_ex (\<lambda>group. topic1 \<in> set group \<and> topic2 \<in> set group) relatedTopics)"

subsection \<open>Topic groups\<close>

text \<open>
  \<open>new Date(ts).getTime()\<close> is a function of the JavaScript runtime, taken as the
  parameter \<open>parseDate\<close>: the milliseconds since the epoch, or \<open>None\<close> for \<open>NaN\<close>
  (a string that is no date). The quotient is exact in the rationals; in double
  precision \<open>d / 60000 > 30\<close> holds for an integer \<open>d\<close> exactly when \<open>d > 1800000\<close>.
  A comparison with \<open>NaN\<close> is false.
\<close>

definition getTimeGapMinutes :: "(string \<Rightarrow> int option) \<Rightarrow> string \<Rightarrow> string \<Rightarrow> rat option" where
  "getTimeGapMinutes parseDate timestamp1 timestamp2 =
     (case parseDate timestamp1 of
        None \<Rightarrow> None
      | Some time1 \<Rightarrow>
          (case parseDate timestamp2 of
             None \<Rightarrow> None
           | Some time2 \<Rightarrow> Some (of_int \<bar>time2 - time1\<bar> / (1000 * 60))))"

definition number_gt :: "rat option \<Rightarrow> rat \<Rightarrow> bool" where
  "number_gt x y = (case x of None \<Rightarrow> False | Some v \<Rightarrow> y < v)"

text \<open>
  The loop of \<open>detectTopicGroups\<close> from \<open>i = 1\<close>: \<open>groups\<close> are the closed groups,
  \<open>currentGroup\<close> the open one (it always holds a pair, so \<^const>\<open>last\<close> reads an element).
\<close>

fun detectTopicGroups_loop ::
  "(string \<Rightarrow> int option) \<Rightarrow> TopicGroup list \<Rightarrow> TopicGroup \<Rightarrow> MessagePair list \<Rightarrow> TopicGroup list" where
  "detectTopicGroups_loop parseDate groups currentGroup [] = groups @ [currentGroup]"
| "detectTopicGroups_loop parseDate groups currentGroup (pair # rest) =
     (let pairTopic = extractTopic pair;
          timeGap = getTimeGapMinutes parseDate
                      (pair_timestamp (last (pairs currentGroup))) (pair_timestamp pair);
          topicSimilar = isTopicSimilar (topic currentGroup) pairTopic
      in if number_gt timeGap 30 \<or> \<not> topicSimilar then
           detectTopicGroups_loop parseDate (groups @ [currentGroup])
             \<lparr>topic = pairTopic, pairs = [pair]\<rparr> rest
         else
           detectTopicGroups_loop parseDate groups
             (currentGroup\<lparr>pairs := pairs currentGroup @ [pair]\<rparr>) rest)"

definition detectTopicGroups :: "(string \<Rightarrow> int option) \<Rightarrow> MessagePair list \<Rightarrow> TopicGroup list" where
  "detectTopicGroups parseDate ps =
     (case ps of
        [] \<Rightarrow> []
      | first # rest \<Rightarrow>
          detectTopicGroups_loop parseDate [] \<lparr>topic = extractTopic first, pairs = [first]\<rparr> rest)"

subsection \<open>Content formatting\<close>

definition nl :: char where
  "nl = CHR 0x0A"

definition truncation_marker :: string where
  "truncation_marker = ''...[truncated]''"

text \<open>
  \<open>cutPoint > maxChars * 0.8\<close> is written over the integers (\<open>10 * cutPoint > 8 * maxChars\<close>);
  the only call is with \<open>maxChars = 10000\<close>, where \<open>maxChars * 0.8\<close> is the double 8000.
\<close>

definition truncateIfNeeded :: "string \<Rightarrow> nat \<Rightarrow> string" where
  "truncateIfNeeded text maxChars =
     (if length text \<le> maxChars then text
      else
        (let truncated = substring0 text maxChars;
             lastPeriod = lastIndexOf truncated (CHR ''.'');
             lastNewline = lastIndexOf truncated nl;
             cutPoint = max lastPeriod lastNewline
         in if 8 * int maxChars < 10 * cutPoint
            then substring0 truncated (nat (cutPoint + 1)) @ truncation_marker
            else truncated @ truncation_marker))"

definition formatChunkContent :: "MessagePair \<Rightarrow> string \<Rightarrow> string" where
  "formatChunkContent pair topic_name =
     (let maxChunkChars = 20000;
          content0 = ''Topic: '' @ topic_name @ [nl, nl];
          content1 =
            (case userMessage pair of
               None \<Rightarrow> content0
             | Some u \<Rightarrow> content0 @ ''User: '' @ truncateIfNeeded (m_content u) 10000 @ [nl, nl]);
          content2 =
            (case assistantMessage pair of
               None \<Rightarrow> content1
             | Some a \<Rightarrow> content1 @ ''Assistant: '' @ truncateIfNeeded (m_content a) 10000);
          content3 =
            (if maxChunkChars < length content2
             then substring0 content2 maxChunkChars @ truncation_marker
             else content2)
      in trim content3)"

subsection \<open>Emission\<close>

definition pairChunkId :: "string \<Rightarrow> nat \<Rightarrow> string" where
  "pairChunkId sid n = ''conv_'' @ sid @ ''_pair_'' @ string_of_nat n"

text \<open>
  The chunk built in the body of the inner loop. \<open>clock n\<close> is what
  \<open>new Date().toISOString()\<close> returns while chunk number \<open>n\<close> is built; \<open>hasNext\<close> is the
  value of \<open>i < group.pairs.length - 1 || group !== topicGroups[topicGroups.length - 1]\<close>.
  \<open>session.project_path || undefined\<close> drops \<open>null\<close> and the empty string.
\<close>

definition makeChunk ::
  "(nat \<Rightarrow> string) \<Rightarrow> Session \<Rightarrow> string \<Rightarrow> MessagePair \<Rightarrow> nat \<Rightarrow> bool \<Rightarrow> ConversationChunk" where
  "makeChunk clock session topic_name pair sequenceNumber hasNext =
     \<lparr>chunk_id = pairChunkId (s_id session) sequenceNumber,
      session_id = s_id session,
      sequence_number = sequenceNumber,
      chunk_type = message_pair,
      content = formatChunkContent pair topic_name,
      user_message = map_option m_content (userMessage pair),
      assistant_message = map_option m_content (assistantMessage pair),
      timestamp = pair_timestamp pair,
      processing_date = clock sequenceNumber,
      project_path =
        (case s_project_path session of
           None \<Rightarrow> None
         | Some p \<Rightarrow> if p = [] then None else Some p),
      message_count =
        (case userMessage pair of None \<Rightarrow> 0 | Some _ \<Rightarrow> 1)
        + (case assistantMessage pair of None \<Rightarrow> 0 | Some _ \<Rightarrow> 1),
      previous_chunk =
        (if 1 < sequenceNumber then Some (pairChunkId (s_id session) (sequenceNumber - 1))
         else None),
      next_chunk =
        (if hasNext then Some (pairChunkId (s_id session) (sequenceNumber + 1)) else None),
      topic_group = Some topic_name,
      token_count = 0\<rparr>"

text \<open>
  The inner loop over \<open>group.pairs\<close>: \<open>sequenceNumber\<close> is the counter before the
  increment, \<open>lastGroup\<close> says that the group is the last element of \<open>topicGroups\<close> (the
  groups are distinct objects, so \<open>!==\<close> compares positions), and \<open>i < length - 1\<close> says
  that pairs remain after the current one.
\<close>

fun emitGroup ::
  "(nat \<Rightarrow> string) \<Rightarrow> Session \<Rightarrow> string \<Rightarrow> bool \<Rightarrow> nat \<Rightarrow> MessagePair list \<Rightarrow> ConversationChunk list" where
  "emitGroup clock session topic_name lastGroup sequenceNumber [] = []"
| "emitGroup clock session topic_name lastGroup sequenceNumber (pair # rest) =
     makeChunk clock session topic_name pair (sequenceNumber + 1) (rest \<noteq> [] \<or> \<not> lastGroup)
     # emitGroup clock session topic_name lastGroup (sequenceNumber + 1) rest"

text \<open>The outer loop over \<open>topicGroups\<close>.\<close>

fun emitGroups ::
  "(nat \<Rightarrow> string) \<Rightarrow> Session \<Rightarrow> nat \<Rightarrow> TopicGroup list \<Rightarrow> ConversationChunk list" where
  "emitGroups clock session sequenceNumber [] = []"
| "emitGroups clock session sequenceNumber (g # gs) =
     emitGroup clock session (topic g) (gs = []) sequenceNumber (pairs g)
     @ emitGroups clock session (sequenceNumber + length (pairs g)) gs"

definition processSession ::
  "(string \<Rightarrow> int option) \<Rightarrow> (nat \<Rightarrow> string) \<Rightarrow> Session \<Rightarrow> Message list \<Rightarrow> ConversationChunk list" where
  "processSession parseDate clock session messages =
     (let conversationMessages = filter (\<lambda>m. m_role m \<noteq> ''system'') messages
      in if conversationMessages = [] then []
         else emitGroups clock session 0
                (detectTopicGroups parseDate (createMessagePairs conversationMessages)))"

subsection \<open>Adjacency links\<close>

text \<open>
  What the emission loop gives chunk number \<open>q\<close> of conversation \<open>sid\<close>: its sequence
  number, its identifier, and the identifiers of its neighbours.
\<close>

definition chain_link :: "string \<Rightarrow> nat \<Rightarrow> bool \<Rightarrow> ConversationChunk \<Rightarrow> bool" where
  "chain_link sid q hasNext c =
     (sequence_number c = q \<and> chunk_id c = pairChunkId sid q \<and>
      previous_chunk c = (if 1 < q then Some (pairChunkId sid (q - 1)) else None) \<and>
      next_chunk c = (if hasNext then Some (pairChunkId sid (q + 1)) else None))"

text \<open>
  The topic group each pair of the flattened sequence lies in: group \<open>n\<close> for the pairs of
  the first group, \<open>n + 1\<close> for those of the second, and so on.
\<close>

fun groupIndices :: "nat \<Rightarrow> TopicGroup list \<Rightarrow> nat list" where
  "groupIndices n [] = []"
| "groupIndices n (g # gs) = replicate (length (pairs g)) n @ groupIndices (Suc n) gs"

text \<open>A chunk with its \<open>processing_date\<close> blanked, to compare the other fields.\<close>

definition without_processing_date :: "ConversationChunk \<Rightarrow> ConversationChunk" where
  "without_processing_date c = c\<lparr>processing_date := []\<rparr>"

subsection \<open>A sample conversation\<close>

definition ex_session :: Session where
  "ex_session =
     \<lparr>s_id = ''s1'', s_file_path = ''/logs/s1.jsonl'', s_project_id = None,
      s_project_path = Some ''/home/u/p'', s_cwd = Some ''/home/u/p'',
      s_started_at = ''2025-01-01T10:00:00Z'', s_ended_at = Some ''2025-01-01T11:05:00Z'',
      s_message_count = 4, s_title = None, s_summary = None,
      s_is_title_auto_generated = False, s_is_stub = False,
      s_created_at = ''2025-01-02 00:00:00'', s_updated_at = ''2025-01-02 00:00:00''\<rparr>"

definition ex_message :: "nat \<Rightarrow> string \<Rightarrow> string \<Rightarrow> string \<Rightarrow> Message" where
  "ex_message i role_name text ts =
     \<lparr>m_id = i, m_uuid = ''m'' @ string_of_nat i, m_session_id = ''s1'', m_role = role_name,
      m_content = text, m_timestamp = ts, m_model = None, m_parent_uuid = None,
      m_message_type = Some role_name, m_cwd = None, m_file_path = None,
      m_content_hash = None, m_token_count = None, m_created_at = ''2025-01-02 00:00:00''\<rparr>"

text \<open>
  A user turn about git with its answer, a second user turn about git 59 minutes later,
  and a user turn on another topic five minutes after that.
\<close>

definition ex_messages :: "Message list" where
  "ex_messages =
     [ex_message 1 ''user'' ''git'' ''2025-01-01T10:00:00Z'',
      ex_message 2 ''assistant'' ''ok'' ''2025-01-01T10:01:00Z'',
      ex_message 3 ''user'' ''git'' ''2025-01-01T11:00:00Z'',
      ex_message 4 ''user'' ''api'' ''2025-01-01T11:05:00Z'']"

text \<open>The runtime's reading of the four time stamps, in milliseconds since the epoch.\<close>

definition ex_parseDate :: "string \<Rightarrow> int option" where
  "ex_parseDate ts =
     (if ts = ''2025-01-01T10:00:00Z'' then Some 1735725600000
      else if ts = ''2025-01-01T10:01:00Z'' then Some 1735725660000
      else if ts = ''2025-01-01T11:00:00Z'' then Some 1735729200000
      else if ts = ''2025-01-01T11:05:00Z'' then Some 1735729500000
      else None)"

section \<open>EmbeddingService (src/services/EmbeddingService.ts)\<close>

record EmbeddingResult =
  embedding :: "real list"
  result_token_count :: nat

text \<open>\<open>Math.ceil(text.length / 4)\<close>.\<close>

definition estimateTokens :: "string \<Rightarrow> nat" where
  "estimateTokens text = (length text + 3) div 4"

text \<open>
  \<open>embed\<close> posts the text to the embedding service. The service is outside the program:
  \<open>response\<close> is its answer to this request, \<open>None\<close> when the request fails (the fetch
  rejects or the status is not OK), in which case \<open>embed\<close> throws.
\<close>

definition embed :: "real list option \<Rightarrow> string \<Rightarrow> EmbeddingResult option" where
  "embed response text =
     (case response of
        None \<Rightarrow> None
      | Some e \<Rightarrow> Some \<lparr>embedding = e, result_token_count = estimateTokens text\<rparr>)"

text \<open>
  A worker of \<open>embedBatch\<close> is an async function; JavaScript runs it without interruption
  up to its next \<open>await\<close>. Between two steps a worker has not been called yet, is
  suspended at \<open>await this.embed(text)\<close> for one queue index, or has left its loop.
\<close>

datatype worker = NotStarted | Awaiting nat | Finished

record batch_state =
  cursor :: nat
  results :: "EmbeddingResult option list"
  workers :: "worker list"

text \<open>
  What the \<open>try\<close>/\<open>catch\<close> around \<open>embed\<close> stores at \<open>results[index]\<close>: the embedding, or
  on a failure 768 zeros with token count 0. \<open>ollama index\<close> is the service's answer to
  the request made for queue entry \<open>index\<close>.
\<close>

definition slot_value :: "(nat \<Rightarrow> real list option) \<Rightarrow> string list \<Rightarrow> nat \<Rightarrow> EmbeddingResult" where
  "slot_value ollama texts index =
     (case embed (ollama index) (texts ! index) of
        Some r \<Rightarrow> r
      | None \<Rightarrow> \<lparr>embedding = replicate 768 0, result_token_count = 0\<rparr>)"

text \<open>
  Worker \<open>w\<close> at the head of its \<open>while\<close> loop, run up to the next \<open>await\<close>: it takes
  \<open>idx = cursor++\<close> and suspends in \<open>embed\<close>, or leaves the loop. \<open>n\<close> is \<open>queue.length\<close>;
  entry \<open>idx\<close> of the queue is \<open>{text: texts[idx], index: idx}\<close>.
\<close>

definition loop_head :: "nat \<Rightarrow> nat \<Rightarrow> batch_state \<Rightarrow> batch_state" where
  "loop_head n w st =
     (if cursor st < n then
        (let idx = cursor st;
             st' = st\<lparr>cursor := cursor st + 1\<rparr>
         in if n \<le> idx then st'\<lparr>workers := (workers st')[w := Finished]\<rparr>
            else st'\<lparr>workers := (workers st')[w := Awaiting idx]\<rparr>)
      else st\<lparr>workers := (workers st)[w := Finished]\<rparr>)"

text \<open>
  The promise worker \<open>w\<close> awaits settles: the worker stores the slot and goes round its
  loop. A worker that is not suspended has nothing to resume.
\<close>

definition resume :: "(nat \<Rightarrow> real list option) \<Rightarrow> string list \<Rightarrow> nat \<Rightarrow> batch_state \<Rightarrow> batch_state" where
  "resume ollama texts w st =
     (if w < length (workers st) then
        (case workers st ! w of
           Awaiting index \<Rightarrow>
             loop_head (length texts) w
               (st\<lparr>results := (results st)[index := Some (slot_value ollama texts index)]\<rparr>)
         | NotStarted \<Rightarrow> st
         | Finished \<Rightarrow> st)
      else st)"

text \<open>
  \<open>new Array(texts.length)\<close> (every slot empty), then
  \<open>Array(Math.min(concurrency, texts.length)).fill(null).map(() => worker())\<close>: the workers
  are called one after the other, each running to its first \<open>await\<close>.
\<close>

definition launch :: "string list \<Rightarrow> nat \<Rightarrow> batch_state" where
  "launch texts concurrency =
     fold (loop_head (length texts)) [0..<min concurrency (length texts)]
       \<lparr>cursor = 0, results = replicate (length texts) None,
        workers = replicate (min concurrency (length texts)) NotStarted\<rparr>"

text \<open>
  \<open>embedBatch\<close> under a schedule: the order in which the awaited promises settle, as the
  list of the workers resumed. \<open>await Promise.all(workers)\<close> returns \<open>results\<close> once every
  worker has finished; \<open>None\<close> says that the schedule ends before that.
\<close>

definition embedBatch ::
  "(nat \<Rightarrow> real list option) \<Rightarrow> string list \<Rightarrow> nat \<Rightarrow> nat list \<Rightarrow> EmbeddingResult option list option" where
  "embedBatch ollama texts concurrency schedule =
     (let st = fold (resume ollama texts) schedule (launch texts concurrency)
      in if list_all (\<lambda>w. w = Finished) (workers st) then Some (results st) else None)"

text \<open>The invariant of the worker pool, for a queue of \<open>n\<close> entries.\<close>

definition pool_inv :: "(nat \<Rightarrow> real list option) \<Rightarrow> string list \<Rightarrow> batch_state \<Rightarrow> bool" where
  "pool_inv ollama texts st =
     (length (results st) = length texts \<and> cursor st \<le> length texts \<and>
      (\<forall>w i. w < length (workers st) \<and> workers st ! w = Awaiting i \<longrightarrow> i < cursor st) \<and>
      (\<forall>i < cursor st. results st ! i = Some (slot_value ollama texts i) \<or>
         (\<exists>w < length (workers st). workers st ! w = Awaiting i)) \<and>
      ((\<exists>w < length (workers st). workers st ! w = Finished) \<longrightarrow> length texts \<le> cursor st))"

text \<open>Work left in the pool: it decreases each time a suspended worker resumes.\<close>

definition worker_weight :: "worker \<Rightarrow> nat" where
  "worker_weight w = (case w of Finished \<Rightarrow> 0 | _ \<Rightarrow> 1)"

definition pool_measure :: "nat \<Rightarrow> batch_state \<Rightarrow> nat" where
  "pool_measure n st = 2 * (n - cursor st) + sum_list (map worker_weight (workers st))"

subsection \<open>A sample batch\<close>

definition ex_texts :: "string list" where
  "ex_texts = [''alpha'', ''beta'', ''gamma'']"

text \<open>The service answers the first and the third request and fails on the second.\<close>

definition ex_ollama :: "nat \<Rightarrow> real list option" where
  "ex_ollama i = (if i = 1 then None else Some [1, 2])"

section \<open>JsonlParser (src/services/JsonlParser.ts)\<close>

text \<open>
  A line of a transcript, once \<open>JSON.parse\<close> has read it, is a \<open>RawJsonlMessage\<close>; only
  the fields the parser reads are kept. A field that is absent or \<open>null\<close> is \<open>None\<close>.
  The content of a message is a string or a list of blocks; the content of a
  \<open>tool_result\<close> block is a string or a list of strings and objects with a \<open>text\<close>.
\<close>

datatype result_part = PartString string | PartObject "string option"

datatype block_content = ResultString string | ResultArray "result_part list" | ResultOther

datatype content_block =
  BlockString string
| BlockObject (block_type: string) (block_text: "string option") (block_name: "string option")
    (block_result: block_content)

datatype message_content = ContentString string | ContentBlocks "content_block list" | ContentOther

record RawMessage =
  rm_role :: "string option"
  rm_content :: message_content
  rm_model :: "string option"

record RawJsonlMessage =
  r_type :: "string option"
  r_uuid :: "string option"
  r_parentUuid :: "string option"
  r_sessionId :: "string option"
  r_timestamp :: "string option"
  r_cwd :: "string option"
  r_isMeta :: bool
  r_summary :: "string option"
  r_message :: "RawMessage option"

record ParsedMessage =
  pm_uuid :: string
  pm_session_id :: "string option"
  pm_role :: string
  pm_content :: string
  pm_timestamp :: string
  pm_model :: "string option"
  pm_parent_uuid :: "string option"
  pm_message_type :: "string option"
  pm_cwd :: "string option"

record ParsedSession =
  ps_id :: string
  ps_file_path :: string
  ps_project_path :: "string option"
  ps_cwd :: "string option"
  ps_title :: "string option"
  ps_started_at :: "string option"
  ps_ended_at :: "string option"
  ps_messages :: "ParsedMessage list"

text \<open>A string-valued field in a condition: present and not empty.\<close>

definition truthy :: "string option \<Rightarrow> bool" where
  "truthy x = (case x of None \<Rightarrow> False | Some s \<Rightarrow> s \<noteq> [])"

text \<open>\<open>x || d\<close> for a string-valued field.\<close>

definition or_else :: "string option \<Rightarrow> string \<Rightarrow> string" where
  "or_else x d = (case x of None \<Rightarrow> d | Some s \<Rightarrow> if s = [] then d else s)"

text \<open>\<open>parts.join(sep)\<close>.\<close>

fun join :: "string \<Rightarrow> string list \<Rightarrow> string" where
  "join sep [] = []"
| "join sep [x] = x"
| "join sep (x # y # ys) = x @ sep @ join sep (y # ys)"

definition result_part_text :: "result_part \<Rightarrow> string" where
  "result_part_text r = (case r of PartString s \<Rightarrow> s | PartObject t \<Rightarrow> or_else t [])"

text \<open>The function mapped over the blocks of a message.\<close>

definition block_to_text :: "content_block \<Rightarrow> string" where
  "block_to_text b =
     (case b of
        BlockString s \<Rightarrow> s
      | BlockObject ty text tool_name result_content \<Rightarrow>
          if ty = ''text'' then or_else text []
          else if ty = ''tool_use'' then ''[Tool Use: '' @ or_else tool_name ''unknown'' @ '']''
          else if ty = ''tool_result'' then
            (case result_content of
               ResultString s \<Rightarrow> s
             | ResultArray rs \<Rightarrow> join [nl] (map result_part_text rs)
             | ResultOther \<Rightarrow> [])
          else [])"

definition parseMessage :: "RawJsonlMessage \<Rightarrow> string option \<Rightarrow> ParsedMessage option" where
  "parseMessage raw sessionId =
     (if \<not> truthy (r_uuid raw) \<or> \<not> truthy (r_timestamp raw) then None
      else
        (let role0 = (if r_type raw = Some ''assistant'' then ''assistant'' else ''user'');
             role1 = (case r_message raw of None \<Rightarrow> role0 | Some m \<Rightarrow> or_else (rm_role m) role0);
             model1 = (case r_message raw of None \<Rightarrow> None | Some m \<Rightarrow> rm_model m);
             content1 =
               (case r_message raw of
                  None \<Rightarrow> []
                | Some m \<Rightarrow>
                    (case rm_content m of
                       ContentString s \<Rightarrow> s
                     | ContentBlocks bs \<Rightarrow>
                         join [nl] (filter (\<lambda>s. s \<noteq> []) (map block_to_text bs))
                     | ContentOther \<Rightarrow> []))
         in if trim content1 = [] then None
            else Some \<lparr>pm_uuid = the (r_uuid raw), pm_session_id = sessionId, pm_role = role1,
                       pm_content = content1, pm_timestamp = the (r_timestamp raw),
                       pm_model = model1, pm_parent_uuid = r_parentUuid raw,
                       pm_message_type = r_type raw, pm_cwd = r_cwd raw\<rparr>))"

text \<open>Both branches of \<open>extractProjectPath\<close> return the working directory.\<close>

definition extractProjectPath :: "string \<Rightarrow> string option" where
  "extractProjectPath dir = Some dir"

text \<open>\<open>content.replace(/\s+/g, ' ')\<close>: every run of white space becomes one blank.\<close>

fun collapse_spaces :: "bool \<Rightarrow> string \<Rightarrow> string" where
  "collapse_spaces in_run [] = []"
| "collapse_spaces in_run (c # cs) =
     (if isSpace c then (if in_run then collapse_spaces True cs else CHR '' '' # collapse_spaces True cs)
      else c # collapse_spaces False cs)"

definition generateTitle :: "string \<Rightarrow> string option" where
  "generateTitle text =
     (if text = [] then None
      else
        (let cleaned = take 100 (trim (collapse_spaces False text))
         in if 80 < length cleaned then Some (take 80 cleaned @ ''...'')
            else if cleaned = [] then None else Some cleaned))"

text \<open>The variables of \<open>parseFile\<close> that its loop over the lines updates.\<close>

record parse_state =
  st_messages :: "ParsedMessage list"
  st_sessionId :: "string option"
  st_title :: "string option"
  st_cwd :: "string option"
  st_projectPath :: "string option"
  st_startedAt :: "string option"
  st_endedAt :: "string option"

text \<open>
  The time stamp tracking of one record. Strings compare as in JavaScript, by code units,
  a proper prefix being smaller.
\<close>

definition track_timestamp :: "string option \<Rightarrow> parse_state \<Rightarrow> parse_state" where
  "track_timestamp ts st =
     (if truthy ts then
        (let st1 = (if \<not> truthy (st_startedAt st) \<or> the ts < the (st_startedAt st)
                    then st\<lparr>st_startedAt := ts\<rparr> else st)
         in if \<not> truthy (st_endedAt st1) \<or> the (st_endedAt st1) < the ts
            then st1\<lparr>st_endedAt := ts\<rparr> else st1)
      else st)"

text \<open>
  The body of the loop for one line. \<open>None\<close> is a line that is blank or that \<open>JSON.parse\<close>
  rejects: both are skipped.
\<close>

definition parse_line :: "RawJsonlMessage option \<Rightarrow> parse_state \<Rightarrow> parse_state" where
  "parse_line line st =
     (case line of
        None \<Rightarrow> st
      | Some parsed \<Rightarrow>
          if r_type parsed = Some ''summary'' then st\<lparr>st_title := r_summary parsed\<rparr>
          else if r_type parsed = Some ''system'' \<or> r_isMeta parsed then st
          else
            (let st1 = (if \<not> truthy (st_sessionId st) \<and> truthy (r_sessionId parsed)
                        then st\<lparr>st_sessionId := r_sessionId parsed\<rparr> else st);
                 st2 = (if \<not> truthy (st_cwd st1) \<and> truthy (r_cwd parsed)
                        then st1\<lparr>st_cwd := r_cwd parsed,
                                 st_projectPath := extractProjectPath (the (r_cwd parsed))\<rparr>
                        else st1);
                 st3 = track_timestamp (r_timestamp parsed) st2
             in if r_type parsed = Some ''user'' \<or> r_type parsed = Some ''assistant'' then
                  (case parseMessage parsed (st_sessionId st3) of
                     None \<Rightarrow> st3
                   | Some message \<Rightarrow> st3\<lparr>st_messages := st_messages st3 @ [message]\<rparr>)
                else st3))"

text \<open>
  \<open>parseFile\<close>. The file is given by what reading it yields: \<open>None\<close> when it cannot be
  read (the outer \<open>catch\<close> returns \<open>null\<close>), else its lines.
\<close>

definition parseFile :: "string \<Rightarrow> RawJsonlMessage option list option \<Rightarrow> ParsedSession option" where
  "parseFile filePath file =
     (case file of
        None \<Rightarrow> None
      | Some lines \<Rightarrow>
          if lines = [] then None
          else
            (let st = fold parse_line lines
                        \<lparr>st_messages = [], st_sessionId = None, st_title = None, st_cwd = None,
                         st_projectPath = None, st_startedAt = None, st_endedAt = None\<rparr>
             in if \<not> truthy (st_sessionId st) \<or> st_messages st = [] then None
                else
                  (let title1 =
                         (if \<not> truthy (st_title st) then
                            (case find (\<lambda>m. pm_role m = ''user'') (st_messages st) of
                               None \<Rightarrow> st_title st
                             | Some firstUserMsg \<Rightarrow> generateTitle (pm_content firstUserMsg))
                          else st_title st)
                   in Some \<lparr>ps_id = the (st_sessionId st), ps_file_path = filePath,
                             ps_project_path = st_projectPath st, ps_cwd = st_cwd st,
                             ps_title = title1, ps_started_at = st_startedAt st,
                             ps_ended_at = st_endedAt st, ps_messages = st_messages st\<rparr>)))"

text \<open>
  The time stamps of the records that reach the tracking code: those that are neither a
  summary, nor a system record, nor marked meta, and carry a non-empty time stamp.
\<close>

definition tracked :: "RawJsonlMessage \<Rightarrow> bool" where
  "tracked r =
     (r_type r \<noteq> Some ''summary'' \<and> r_type r \<noteq> Some ''system'' \<and> \<not> r_isMeta r \<and>
      truthy (r_timestamp r))"

fun tracked_timestamps :: "RawJsonlMessage option list \<Rightarrow> string list" where
  "tracked_timestamps [] = []"
| "tracked_timestamps (None # ls) = tracked_timestamps ls"
| "tracked_timestamps (Some r # ls) =
     (if tracked r then the (r_timestamp r) # tracked_timestamps ls else tracked_timestamps ls)"

text \<open>
  For comparison, the wider reading: the time stamps of all records that carry one,
  whatever their kind.
\<close>

fun all_timestamps :: "RawJsonlMessage option list \<Rightarrow> string list" where
  "all_timestamps [] = []"
| "all_timestamps (None # ls) = all_timestamps ls"
| "all_timestamps (Some r # ls) =
     (if truthy (r_timestamp r) then the (r_timestamp r) # all_timestamps ls
      else all_timestamps ls)"

text \<open>The smallest and the largest of a list of strings, \<open>None\<close> for the empty list.\<close>

definition min_of :: "string list \<Rightarrow> string option" where
  "min_of ts = (if ts = [] then None else Some (Min (set ts)))"

definition max_of :: "string list \<Rightarrow> string option" where
  "max_of ts = (if ts = [] then None else Some (Max (set ts)))"

text \<open>
  The invariant of the loop of \<open>parseFile\<close> over the time stamps \<open>ts\<close> tracked so far.
\<close>

definition time_inv :: "parse_state \<Rightarrow> string list \<Rightarrow> bool" where
  "time_inv st ts =
     (st_startedAt st = min_of ts \<and> st_endedAt st = max_of ts \<and> list_all (\<lambda>t. t \<noteq> []) ts)"

subsection \<open>A sample transcript\<close>

definition ex_record :: "string \<Rightarrow> string \<Rightarrow> string \<Rightarrow> string \<Rightarrow> RawJsonlMessage" where
  "ex_record ty uuid ts text =
     \<lparr>r_type = Some ty, r_uuid = Some uuid, r_parentUuid = None, r_sessionId = Some ''s1'',
      r_timestamp = Some ts, r_cwd = Some ''/home/u/p'', r_isMeta = False, r_summary = None,
      r_message = Some \<lparr>rm_role = Some ty, rm_content = ContentString text, rm_model = None\<rparr>\<rparr>"

text \<open>A system record at 09:00, then a user turn at 10:00 and its answer at 10:01.\<close>

definition ex_lines :: "RawJsonlMessage option list" where
  "ex_lines =
     [Some (ex_record ''system'' ''m0'' ''2025-01-01T09:00:00Z'' ''boot''),
      Some (ex_record ''user'' ''m1'' ''2025-01-01T10:00:00Z'' ''git''),
      Some (ex_record ''assistant'' ''m2'' ''2025-01-01T10:01:00Z'' ''ok'')]"

section \<open>The database (src/database/migrations, src/repositories)\<close>

text \<open>
  The tables of the schema that the import reads and writes, as lists of rows in
  insertion order. The full-text index \<open>messages_fts\<close> mirrors \<open>messages\<close> through triggers
  and is left out. \<open>db_next_message_id\<close> and \<open>db_next_project_id\<close> are the \<open>AUTOINCREMENT\<close>
  sequences.
\<close>

record Project =
  p_id :: nat
  p_path :: string
  p_name :: string
  p_description :: "string option"
  p_session_count :: int
  p_message_count :: int
  p_created_at :: string
  p_last_activity_at :: "string option"
  p_updated_at :: string

record Tag =
  t_id :: nat
  t_name :: string
  t_color :: "string option"
  t_description :: "string option"
  t_created_at :: string

record SessionTag =
  link_session_id :: string
  link_tag_id :: nat
  link_created_at :: string

record database =
  db_sessions :: "Session list"
  db_messages :: "Message list"
  db_projects :: "Project list"
  db_tags :: "Tag list"
  db_session_tags :: "SessionTag list"
  db_next_message_id :: nat
  db_next_project_id :: nat

text \<open>
  What the program takes from its runtime: the MD5 digest in hexadecimal,
  \<open>new Date().toISOString()\<close>, SQLite's \<open>datetime('now')\<close>, \<open>path.basename(file, '.jsonl')\<close> and
  the milliseconds elapsed between two readings of \<open>Date.now()\<close>.
\<close>

record runtime =
  md5_hex :: "string \<Rightarrow> string"
  now_iso :: string
  now_sql :: string
  basename_jsonl :: "string \<Rightarrow> string"
  elapsed_ms :: int

text \<open>The errors a statement raises, with the message SQLite gives them.\<close>

datatype sql_error = UniqueConstraint string | NotNullConstraint string | ForeignKeyConstraint

definition error_message :: "sql_error \<Rightarrow> string" where
  "error_message e =
     (case e of
        UniqueConstraint col \<Rightarrow> ''UNIQUE constraint failed: '' @ col
      | NotNullConstraint col \<Rightarrow> ''NOT NULL constraint failed: '' @ col
      | ForeignKeyConstraint \<Rightarrow> ''FOREIGN KEY constraint failed'')"

text \<open>\<open>error.message.includes('UNIQUE constraint failed')\<close>, on the three messages above.\<close>

definition is_unique_violation :: "sql_error \<Rightarrow> bool" where
  "is_unique_violation e = (case e of UniqueConstraint _ \<Rightarrow> True | _ \<Rightarrow> False)"

subsection \<open>Triggers of migration 002\<close>

definition update_project_stats_insert :: "runtime \<Rightarrow> Session \<Rightarrow> database \<Rightarrow> database" where
  "update_project_stats_insert rt new db =
     (case s_project_id new of
        None \<Rightarrow> db
      | Some pid \<Rightarrow>
          db\<lparr>db_projects :=
               map (\<lambda>p. if p_id p = pid then
                           p\<lparr>p_session_count := p_session_count p + 1,
                             p_message_count := p_message_count p + s_message_count new,
                             p_last_activity_at :=
                               (case p_last_activity_at p of
                                  None \<Rightarrow> Some (s_started_at new)
                                | Some a \<Rightarrow> if a < s_started_at new then Some (s_started_at new)
                                            else Some a),
                             p_updated_at := now_sql rt\<rparr>
                         else p)
                   (db_projects db)\<rparr>)"

definition update_project_stats_update :: "runtime \<Rightarrow> Session \<Rightarrow> Session \<Rightarrow> database \<Rightarrow> database" where
  "update_project_stats_update rt old new db =
     (case s_project_id new of
        None \<Rightarrow> db
      | Some pid \<Rightarrow>
          db\<lparr>db_projects :=
               map (\<lambda>p. if p_id p = pid then
                           p\<lparr>p_message_count :=
                               p_message_count p + (s_message_count new - s_message_count old),
                             p_updated_at := now_sql rt\<rparr>
                         else p)
                   (db_projects db)\<rparr>)"

subsection \<open>SessionRepository\<close>

record CreateSessionInput =
  i_id :: string
  i_file_path :: string
  i_project_id :: "nat option"
  i_project_path :: "string option"
  i_cwd :: "string option"
  i_started_at :: string
  i_ended_at :: "string option"
  i_message_count :: "int option"
  i_title :: "string option"
  i_summary :: "string option"
  i_is_title_auto_generated :: "bool option"
  i_is_stub :: "bool option"

record UpdateSessionInput =
  u_ended_at :: "string option"
  u_message_count :: "int option"
  u_title :: "string option"
  u_summary :: "string option"
  u_is_title_auto_generated :: "bool option"

definition findById :: "string \<Rightarrow> database \<Rightarrow> Session option" where
  "findById sid db = find (\<lambda>s. s_id s = sid) (db_sessions db)"

definition session_exists :: "string \<Rightarrow> database \<Rightarrow> bool" where
  "session_exists sid db = (findById sid db \<noteq> None)"

definition isStub :: "string \<Rightarrow> database \<Rightarrow> bool" where
  "isStub sid db = (case findById sid db of None \<Rightarrow> False | Some s \<Rightarrow> s_is_stub s)"

text \<open>The foreign key \<open>sessions.project_id\<close>.\<close>

definition project_known :: "nat option \<Rightarrow> database \<Rightarrow> bool" where
  "project_known pid db =
     (case pid of None \<Rightarrow> True | Some i \<Rightarrow> list_ex (\<lambda>p. p_id p = i) (db_projects db))"

definition session_create :: "runtime \<Rightarrow> CreateSessionInput \<Rightarrow> database \<Rightarrow> sql_error + database" where
  "session_create rt input db =
     (if session_exists (i_id input) db then Inl (UniqueConstraint ''sessions.id'')
      else if project_known (i_project_id input) db then
        (let row =
               \<lparr>s_id = i_id input, s_file_path = i_file_path input,
                s_project_id = i_project_id input, s_project_path = i_project_path input,
                s_cwd = i_cwd input, s_started_at = i_started_at input,
                s_ended_at = i_ended_at input,
                s_message_count = (case i_message_count input of None \<Rightarrow> 0 | Some n \<Rightarrow> n),
                s_title = i_title input, s_summary = i_summary input,
                s_is_title_auto_generated = (i_is_title_auto_generated input = Some True),
                s_is_stub = (i_is_stub input = Some True),
                s_created_at = now_sql rt, s_updated_at = now_sql rt\<rparr>
         in Inr (update_project_stats_insert rt row (db\<lparr>db_sessions := db_sessions db @ [row]\<rparr>)))
      else Inl ForeignKeyConstraint)"

text \<open>The row \<open>updateFromImport\<close> writes over a session.\<close>

definition import_row :: "runtime \<Rightarrow> CreateSessionInput \<Rightarrow> Session \<Rightarrow> Session" where
  "import_row rt input s =
     s\<lparr>s_file_path := i_file_path input, s_project_id := i_project_id input,
       s_project_path := i_project_path input, s_cwd := i_cwd input,
       s_started_at := i_started_at input, s_ended_at := i_ended_at input,
       s_message_count := (case i_message_count input of None \<Rightarrow> 0 | Some n \<Rightarrow> n),
       s_is_stub := False, s_updated_at := now_sql rt\<rparr>"

definition updateFromImport ::
  "runtime \<Rightarrow> string \<Rightarrow> CreateSessionInput \<Rightarrow> database \<Rightarrow> sql_error + database" where
  "updateFromImport rt sid input db =
     (case findById sid db of
        None \<Rightarrow> Inr db
      | Some old \<Rightarrow>
          if project_known (i_project_id input) db then
            Inr (update_project_stats_update rt old (import_row rt input old)
                   (db\<lparr>db_sessions :=
                        map (\<lambda>s. if s_id s = sid then import_row rt input s else s)
                          (db_sessions db)\<rparr>))
          else Inl ForeignKeyConstraint)"

text \<open>The row \<open>update\<close> writes: the fields that are given, and \<open>updated_at\<close>.\<close>

definition update_row :: "runtime \<Rightarrow> UpdateSessionInput \<Rightarrow> Session \<Rightarrow> Session" where
  "update_row rt input s =
     s\<lparr>s_ended_at := (case u_ended_at input of None \<Rightarrow> s_ended_at s | Some e \<Rightarrow> Some e),
       s_message_count := (case u_message_count input of None \<Rightarrow> s_message_count s | Some n \<Rightarrow> n),
       s_title := (case u_title input of None \<Rightarrow> s_title s | Some t \<Rightarrow> Some t),
       s_summary := (case u_summary input of None \<Rightarrow> s_summary s | Some t \<Rightarrow> Some t),
       s_is_title_auto_generated :=
         (case u_is_title_auto_generated input of
            None \<Rightarrow> s_is_title_auto_generated s | Some b \<Rightarrow> b),
       s_updated_at := now_sql rt\<rparr>"

definition session_update :: "runtime \<Rightarrow> string \<Rightarrow> UpdateSessionInput \<Rightarrow> database \<Rightarrow> database" where
  "session_update rt sid input db =
     (if u_ended_at input = None \<and> u_message_count input = None \<and> u_title input = None \<and>
         u_summary input = None \<and> u_is_title_auto_generated input = None then db
      else
        (case findById sid db of
           None \<Rightarrow> db
         | Some old \<Rightarrow>
             (let db1 = db\<lparr>db_sessions :=
                             map (\<lambda>s. if s_id s = sid then update_row rt input s else s)
                               (db_sessions db)\<rparr>
              in if u_message_count input = None then db1
                 else update_project_stats_update rt old (update_row rt input old) db1)))"

subsection \<open>MessageRepository\<close>

record CreateMessageInput =
  ci_uuid :: string
  ci_session_id :: "string option"
  ci_role :: string
  ci_content :: string
  ci_timestamp :: string
  ci_model :: "string option"
  ci_parent_uuid :: "string option"
  ci_message_type :: "string option"
  ci_cwd :: "string option"
  ci_file_path :: "string option"
  ci_token_count :: "nat option"

text \<open>
  The template literal renders a \<open>null\<close> session id (which the parser passes on when no
  record before the message carried an id) as the text \<open>null\<close>.
\<close>

definition calculateHash :: "runtime \<Rightarrow> string option \<Rightarrow> string \<Rightarrow> string \<Rightarrow> string" where
  "calculateHash rt sessionId uuid text =
     md5_hex rt ((case sessionId of None \<Rightarrow> ''null'' | Some s \<Rightarrow> s) @ uuid @ text)"

text \<open>
  \<open>create\<close>: one \<open>INSERT\<close>. SQLite checks \<open>NOT NULL\<close> first, then the \<open>UNIQUE\<close> index on
  \<open>uuid\<close>, and the foreign key to \<open>sessions\<close> when the statement ends.
\<close>

definition message_create :: "runtime \<Rightarrow> CreateMessageInput \<Rightarrow> database \<Rightarrow> sql_error + database" where
  "message_create rt input db =
     (case ci_session_id input of
        None \<Rightarrow> Inl (NotNullConstraint ''messages.session_id'')
      | Some sid \<Rightarrow>
          if list_ex (\<lambda>m. m_uuid m = ci_uuid input) (db_messages db)
          then Inl (UniqueConstraint ''messages.uuid'')
          else if session_exists sid db then
            Inr (db\<lparr>db_messages := db_messages db @
                       [\<lparr>m_id = db_next_message_id db, m_uuid = ci_uuid input, m_session_id = sid,
                         m_role = ci_role input, m_content = ci_content input,
                         m_timestamp = ci_timestamp input, m_model = ci_model input,
                         m_parent_uuid = ci_parent_uuid input,
                         m_message_type = ci_message_type input, m_cwd = ci_cwd input,
                         m_file_path = ci_file_path input,
                         m_content_hash =
                           Some (calculateHash rt (ci_session_id input) (ci_uuid input)
                                   (ci_content input)),
                         m_token_count = ci_token_count input, m_created_at = now_sql rt\<rparr>],
                    db_next_message_id := db_next_message_id db + 1\<rparr>)
          else Inl ForeignKeyConstraint)"

text \<open>
  The loop of \<open>createMany\<close>, inside the transaction: a duplicate \<open>uuid\<close> is skipped, any
  other error is thrown on.
\<close>

fun createMany_loop ::
  "runtime \<Rightarrow> nat \<Rightarrow> database \<Rightarrow> CreateMessageInput list \<Rightarrow> sql_error + nat \<times> database" where
  "createMany_loop rt created db [] = Inr (created, db)"
| "createMany_loop rt created db (input # rest) =
     (case message_create rt input db of
        Inr db' \<Rightarrow> createMany_loop rt (created + 1) db' rest
      | Inl e \<Rightarrow> if is_unique_violation e then createMany_loop rt created db rest else Inl e)"

text \<open>
  \<open>createMany\<close>: when the loop throws, the transaction is rolled back and the error
  thrown on, so the caller keeps the database it had.
\<close>

definition createMany ::
  "runtime \<Rightarrow> CreateMessageInput list \<Rightarrow> database \<Rightarrow> sql_error + nat \<times> database" where
  "createMany rt inputs db = createMany_loop rt 0 db inputs"

text \<open>\<open>count({session_id})\<close>: the rows stored for a session.\<close>

definition count_messages :: "string \<Rightarrow> database \<Rightarrow> nat" where
  "count_messages sid db = length (filter (\<lambda>m. m_session_id m = sid) (db_messages db))"

subsection \<open>ProjectRepository\<close>

text \<open>\<open>path.split('/')\<close>.\<close>

fun split_slash :: "string \<Rightarrow> string \<Rightarrow> string list" where
  "split_slash acc [] = [acc]"
| "split_slash acc (c # cs) =
     (if c = CHR ''/'' then acc # split_slash [] cs else split_slash (acc @ [c]) cs)"

definition project_name :: "string \<Rightarrow> string" where
  "project_name path =
     (let segments = filter (\<lambda>s. s \<noteq> []) (split_slash [] path)
      in if segments = [] then ''Unknown'' else last segments)"

definition getOrCreate :: "runtime \<Rightarrow> string \<Rightarrow> database \<Rightarrow> Project \<times> database" where
  "getOrCreate rt path db =
     (case find (\<lambda>p. p_path p = path) (db_projects db) of
        Some existing \<Rightarrow> (existing, db)
      | None \<Rightarrow>
          (let row =
                 \<lparr>p_id = db_next_project_id db, p_path = path, p_name = project_name path,
                  p_description = None, p_session_count = 0, p_message_count = 0,
                  p_created_at = now_sql rt, p_last_activity_at = None,
                  p_updated_at = now_sql rt\<rparr>
           in (row, db\<lparr>db_projects := db_projects db @ [row],
                       db_next_project_id := db_next_project_id db + 1\<rparr>)))"

section \<open>ImportService (src/services/ImportService.ts)\<close>

definition message_input :: "ParsedMessage \<Rightarrow> CreateMessageInput" where
  "message_input msg =
     \<lparr>ci_uuid = pm_uuid msg, ci_session_id = pm_session_id msg, ci_role = pm_role msg,
      ci_content = pm_content msg, ci_timestamp = pm_timestamp msg, ci_model = pm_model msg,
      ci_parent_uuid = pm_parent_uuid msg, ci_message_type = pm_message_type msg,
      ci_cwd = pm_cwd msg, ci_file_path = None, ci_token_count = None\<rparr>"

text \<open>
  \<open>importFile\<close> from the parsed session on. \<open>withProjects\<close> says that the service was
  built with a \<open>ProjectRepository\<close>. The result pairs what the call returns (\<open>Inl\<close> an error
  thrown, \<open>Inr None\<close> for \<open>null\<close>) with the database it leaves.
\<close>

definition importSession ::
  "runtime \<Rightarrow> bool \<Rightarrow> ParsedSession \<Rightarrow> bool \<Rightarrow> database \<Rightarrow> (sql_error + nat option) \<times> database" where
  "importSession rt withProjects parsed skipExisting db =
     (let existingSession = session_exists (ps_id parsed) db;
          stub = (existingSession \<and> isStub (ps_id parsed) db)
      in if skipExisting \<and> existingSession \<and> \<not> stub then (Inr (Some 0), db)
         else
           (let (projectId, db1) =
                  (if withProjects \<and> truthy (ps_project_path parsed)
                   then (let (project, d) = getOrCreate rt (the (ps_project_path parsed)) db
                         in (Some (p_id project), d))
                   else (None, db));
                sessionInput =
                  \<lparr>i_id = ps_id parsed, i_file_path = ps_file_path parsed,
                   i_project_id = projectId, i_project_path = ps_project_path parsed,
                   i_cwd = ps_cwd parsed,
                   i_started_at =
                     (case ps_started_at parsed of None \<Rightarrow> now_iso rt | Some t \<Rightarrow> t),
                   i_ended_at = ps_ended_at parsed,
                   i_message_count = Some (int (length (ps_messages parsed))),
                   i_title = ps_title parsed, i_summary = None,
                   i_is_title_auto_generated = Some (ps_title parsed \<noteq> None),
                   i_is_stub = None\<rparr>;
                stored =
                  (if stub then updateFromImport rt (ps_id parsed) sessionInput db1
                   else if \<not> existingSession then session_create rt sessionInput db1
                   else Inr db1)
            in case stored of
                 Inl e \<Rightarrow> (Inl e, db1)
               | Inr db2 \<Rightarrow>
                   (case createMany rt (map message_input (ps_messages parsed)) db2 of
                      Inl e \<Rightarrow> (Inl e, db2)
                    | Inr (created, db3) \<Rightarrow>
                        (Inr (Some created),
                         session_update rt (ps_id parsed)
                           \<lparr>u_ended_at = None, u_message_count = Some (int created),
                            u_title = None, u_summary = None,
                            u_is_title_auto_generated = None\<rparr> db3))))"

text \<open>
  \<open>importFile\<close>: \<open>readFile\<close> gives, for a path, what reading the file yields (see
  \<open>parseFile\<close>).
\<close>

definition importFile ::
  "runtime \<Rightarrow> bool \<Rightarrow> (string \<Rightarrow> RawJsonlMessage option list option) \<Rightarrow> string \<Rightarrow> bool \<Rightarrow>
   database \<Rightarrow> (sql_error + nat option) \<times> database" where
  "importFile rt withProjects readFile filePath skipExisting db =
     (case parseFile filePath (readFile filePath) of
        None \<Rightarrow> (Inr None, db)
      | Some parsed \<Rightarrow> importSession rt withProjects parsed skipExisting db)"

text \<open>
  The options of \<open>importAll\<close>. A callback is modelled by its outcome: \<open>None\<close> when it
  returns, \<open>Some msg\<close> when it throws an error with that message. The source directories
  are replaced by the list of files their traversal collects.
\<close>

record ImportOptions =
  opt_skipExisting :: "bool option"
  opt_onProgress :: "(nat \<Rightarrow> nat \<Rightarrow> string \<Rightarrow> string option) option"
  opt_onError :: "(string \<Rightarrow> string \<Rightarrow> string option) option"

record ImportResult =
  totalFiles :: nat
  imported :: nat
  skipped :: nat
  failed :: nat
  totalMessages :: nat
  errors :: "(string \<times> string) list"
  duration :: int

text \<open>
  The loop of \<open>importAll\<close> over the files, \<open>i\<close> being the index of the current one. The
  \<open>try\<close> block holds the call of \<open>importFile\<close>, the counting and the progress callback; the
  \<open>catch\<close> block counts a failure and calls the error callback, whose own error is not
  caught, so that \<open>importAll\<close> throws it (\<open>Inl\<close>).
\<close>

fun importAll_loop ::
  "runtime \<Rightarrow> bool \<Rightarrow> (string \<Rightarrow> RawJsonlMessage option list option) \<Rightarrow> ImportOptions \<Rightarrow>
   nat \<Rightarrow> nat \<Rightarrow> string list \<Rightarrow> ImportResult \<Rightarrow> database \<Rightarrow> (string + ImportResult) \<times> database" where
  "importAll_loop rt withProjects readFile opts n_files i [] result db = (Inr result, db)"
| "importAll_loop rt withProjects readFile opts n_files i (file # rest) result db =
     (let (outcome, db1) =
            importFile rt withProjects readFile file
              (case opt_skipExisting opts of None \<Rightarrow> True | Some b \<Rightarrow> b) db;
          (thrown, result1) =
            (case outcome of
               Inl e \<Rightarrow> (Some (error_message e), result)
             | Inr n \<Rightarrow>
                 (let counted =
                        (case n of
                           None \<Rightarrow> result\<lparr>skipped := skipped result + 1\<rparr>
                         | Some k \<Rightarrow>
                             if k = 0 then result\<lparr>skipped := skipped result + 1\<rparr>
                             else result\<lparr>imported := imported result + 1,
                                         totalMessages := totalMessages result + k\<rparr>)
                  in (case opt_onProgress opts of
                        None \<Rightarrow> (None, counted)
                      | Some progress \<Rightarrow>
                          (progress (i + 1) n_files (basename_jsonl rt file), counted))))
      in case thrown of
           None \<Rightarrow> importAll_loop rt withProjects readFile opts n_files (i + 1) rest result1 db1
         | Some msg \<Rightarrow>
             (let result2 = result1\<lparr>failed := failed result1 + 1,
                                     errors := errors result1 @ [(file, msg)]\<rparr>
              in case (case opt_onError opts of None \<Rightarrow> None | Some handler \<Rightarrow> handler file msg) of
                   None \<Rightarrow>
                     importAll_loop rt withProjects readFile opts n_files (i + 1) rest result2 db1
                 | Some m \<Rightarrow> (Inl m, db1)))"

definition importAll ::
  "runtime \<Rightarrow> bool \<Rightarrow> (string \<Rightarrow> RawJsonlMessage option list option) \<Rightarrow> ImportOptions \<Rightarrow>
   string list \<Rightarrow> database \<Rightarrow> (string + ImportResult) \<times> database" where
  "importAll rt withProjects readFile opts files db =
     (case importAll_loop rt withProjects readFile opts (length files) 0 files
             \<lparr>totalFiles = length files, imported = 0, skipped = 0, failed = 0,
              totalMessages = 0, errors = [], duration = 0\<rparr> db of
        (Inl m, db') \<Rightarrow> (Inl m, db')
      | (Inr result, db') \<Rightarrow> (Inr (result\<lparr>duration := elapsed_ms rt\<rparr>), db'))"

text \<open>A progress callback that returns for every file.\<close>

definition returns_normally :: "(nat \<Rightarrow> nat \<Rightarrow> string \<Rightarrow> string option) option \<Rightarrow> bool" where
  "returns_normally cb = (case cb of None \<Rightarrow> True | Some f \<Rightarrow> \<forall>a b c. f a b c = None)"

subsection \<open>Sample data for the import\<close>

definition ex_runtime :: runtime where
  "ex_runtime =
     \<lparr>md5_hex = (\<lambda>s. ''0cc175b9''), now_iso = ''2025-02-01T00:00:00.000Z'',
      now_sql = ''2025-02-01 00:00:00'', basename_jsonl = (\<lambda>p. ''s1''), elapsed_ms = 5\<rparr>"

definition ex_readFile :: "string \<Rightarrow> RawJsonlMessage option list option" where
  "ex_readFile path = (if path = ''/logs/s1.jsonl'' then Some ex_lines else None)"

definition empty_db :: database where
  "empty_db =
     \<lparr>db_sessions = [], db_messages = [], db_projects = [], db_tags = [],
      db_session_tags = [], db_next_message_id = 1, db_next_project_id = 1\<rparr>"

text \<open>
  A stub for session \<open>s1\<close>, as \<open>createStub\<close> writes it, to which the user has given a
  title and the tag \<open>important\<close>.
\<close>

definition ex_stub :: Session where
  "ex_stub =
     \<lparr>s_id = ''s1'', s_file_path = ''STUB:pending_import'', s_project_id = None,
      s_project_path = None, s_cwd = None, s_started_at = ''2025-01-01T09:59:00.000Z'',
      s_ended_at = None, s_message_count = 0, s_title = Some ''release plan'',
      s_summary = Some ''notes'', s_is_title_auto_generated = False, s_is_stub = True,
      s_created_at = ''2025-01-01 09:59:00'', s_updated_at = ''2025-01-01 09:59:30''\<rparr>"

definition ex_stub_db :: database where
  "ex_stub_db =
     \<lparr>db_sessions = [ex_stub], db_messages = [], db_projects = [],
      db_tags = [\<lparr>t_id = 1, t_name = ''important'', t_color = None, t_description = None,
                  t_created_at = ''2025-01-01 09:59:10''\<rparr>],
      db_session_tags = [\<lparr>link_session_id = ''s1'', link_tag_id = 1,
                          link_created_at = ''2025-01-01 09:59:20''\<rparr>],
      db_next_message_id = 1, db_next_project_id = 1\<rparr>"

text \<open>A progress callback that throws, and the options that carry it.\<close>

definition ex_failing_progress :: "nat \<Rightarrow> nat \<Rightarrow> string \<Rightarrow> string option" where
  "ex_failing_progress current n_files sessionId = Some ''write EPIPE''"

definition ex_options :: ImportOptions where
  "ex_options =
     \<lparr>opt_skipExisting = None, opt_onProgress = Some ex_failing_progress, opt_onError = None\<rparr>"

section \<open>ChunkIndexer (src/services/ChunkIndexer.ts)\<close>

text \<open>The document handed to the vector store, its metadata flattened into the record.\<close>

record ChunkDocument =
  doc_id :: string
  doc_content :: string
  doc_session_id :: string
  doc_sequence_number :: nat
  doc_chunk_type :: chunk_kind
  doc_timestamp :: string
  doc_project_path :: string
  doc_message_count :: nat
  doc_previous_chunk :: string
  doc_next_chunk :: string
  doc_topic_group :: string
  doc_token_count :: nat
  doc_processing_date :: string

definition chunkToDocument :: "ConversationChunk \<Rightarrow> ChunkDocument" where
  "chunkToDocument chunk =
     \<lparr>doc_id = chunk_id chunk, doc_content = content chunk,
      doc_session_id = session_id chunk, doc_sequence_number = sequence_number chunk,
      doc_chunk_type = chunk_type chunk, doc_timestamp = timestamp chunk,
      doc_project_path = or_else (project_path chunk) [],
      doc_message_count = message_count chunk,
      doc_previous_chunk = or_else (previous_chunk chunk) [],
      doc_next_chunk = or_else (next_chunk chunk) [],
      doc_topic_group = or_else (topic_group chunk) [],
      doc_token_count = token_count chunk, doc_processing_date = processing_date chunk\<rparr>"

text \<open>
  The checkpoint and the file that holds it: the file is absent (\<open>None\<close>), holds a saved
  checkpoint, or holds something \<open>JSON.parse\<close> rejects or that is no checkpoint.
\<close>

record Checkpoint =
  cp_lastProcessedSessionId :: "string option"
  cp_processedCount :: nat
  cp_totalSessions :: nat
  cp_timestamp :: string

datatype checkpoint_file = Corrupt | Saved Checkpoint

record ChunkIndexingOptions =
  io_batchSize :: "nat option"
  io_concurrency :: "nat option"
  io_onProgress :: "(nat \<Rightarrow> nat \<Rightarrow> string option \<Rightarrow> string option) option"
  io_freshStart :: "bool option"

record ChunkIndexingResult =
  totalSessions :: nat
  processedSessions :: nat
  skippedSessions :: nat
  totalChunks :: nat
  index_errors :: nat
  index_duration :: int

text \<open>
  What \<open>indexAll\<close> takes from outside: the two repositories (\<open>None\<close> when the query
  throws), the vector store's \<open>upsertChunks\<close> (\<open>False\<close> when it rejects), whether the
  checkpoint write of the batch that starts at index \<open>i\<close> succeeds, whether the final
  \<open>unlinkSync\<close> succeeds, the runtime's date parsing and the clocks. A progress callback
  is modelled by its outcome, \<open>Some msg\<close> when it throws. Console output is not modelled.
\<close>

record indexer_env =
  findAll :: "Session list option"
  findBySession :: "string \<Rightarrow> Message list option"
  upsertChunks :: "ChunkDocument list \<Rightarrow> nat \<Rightarrow> bool"
  write_ok :: "nat \<Rightarrow> bool"
  unlink_ok :: bool
  date_parse :: "string \<Rightarrow> int option"
  chunk_clock :: "nat \<Rightarrow> string"
  checkpoint_clock :: "nat \<Rightarrow> string"
  index_elapsed_ms :: int

datatype index_error = EnumerationFailed | TypeError | CallbackError string | UnlinkFailed

text \<open>The body of the loop over the sessions of a batch, with its two \<open>try\<close> blocks.\<close>

definition process_session :: "indexer_env \<Rightarrow> nat \<Rightarrow> Session \<Rightarrow> ChunkIndexingResult \<Rightarrow> ChunkIndexingResult" where
  "process_session env concurrency session result =
     (case findBySession env (s_id session) of
        None \<Rightarrow> result\<lparr>index_errors := index_errors result + 1\<rparr>
      | Some msgs \<Rightarrow>
          if msgs = [] then result\<lparr>skippedSessions := skippedSessions result + 1\<rparr>
          else
            (let chunks = processSession (date_parse env) (chunk_clock env) session msgs
             in if chunks = [] then result\<lparr>skippedSessions := skippedSessions result + 1\<rparr>
                else
                  (let sessionChunks = map chunkToDocument chunks
                   in if upsertChunks env sessionChunks concurrency
                      then result\<lparr>processedSessions := processedSessions result + 1,
                                  totalChunks := totalChunks result + length chunks\<rparr>
                      else result\<lparr>index_errors := index_errors result + length sessionChunks\<rparr>)))"

text \<open>
  \<open>saveCheckpoint\<close> catches the error of a failed write; the file then stays as it was.
\<close>

definition saveCheckpoint :: "indexer_env \<Rightarrow> nat \<Rightarrow> Checkpoint \<Rightarrow> checkpoint_file option \<Rightarrow> checkpoint_file option" where
  "saveCheckpoint env i checkpoint ckpt = (if write_ok env i then Some (Saved checkpoint) else ckpt)"

text \<open>
  The loop over the batches. With \<open>batchSize = 0\<close> the batch is empty and
  \<open>lastSession.id\<close> throws a \<open>TypeError\<close>; an error of the progress callback is not caught
  either.
\<close>

function indexAll_loop ::
  "indexer_env \<Rightarrow> ChunkIndexingOptions \<Rightarrow> Session list \<Rightarrow> nat \<Rightarrow> ChunkIndexingResult \<Rightarrow>
   checkpoint_file option \<Rightarrow> (index_error + ChunkIndexingResult) \<times> checkpoint_file option" where
  "indexAll_loop env opts allSessions i result ckpt =
     (if i < length allSessions then
        (let batchSize = (case io_batchSize opts of None \<Rightarrow> 10 | Some b \<Rightarrow> b);
             concurrency = (case io_concurrency opts of None \<Rightarrow> 10 | Some c \<Rightarrow> c);
             batch = take batchSize (drop i allSessions);
             result1 = fold (process_session env concurrency) batch result
         in if batch = [] then (Inl TypeError, ckpt)
            else
              (let lastSession = last batch;
                   ckpt1 = saveCheckpoint env i
                             \<lparr>cp_lastProcessedSessionId = Some (s_id lastSession),
                              cp_processedCount = processedSessions result1,
                              cp_totalSessions = totalSessions result1,
                              cp_timestamp = checkpoint_clock env i\<rparr> ckpt
               in case (case io_onProgress opts of
                          None \<Rightarrow> None
                        | Some progress \<Rightarrow>
                            progress (i + length batch) (length allSessions)
                              (Some (s_id lastSession))) of
                    Some msg \<Rightarrow> (Inl (CallbackError msg), ckpt1)
                  | None \<Rightarrow> indexAll_loop env opts allSessions (i + batchSize) result1 ckpt1))
      else (Inr result, ckpt))"
  by pat_completeness auto
termination
  by (relation "measure (\<lambda>(env, opts, allSessions, i, result, ckpt). length allSessions - i)")
     (auto split: option.splits)

declare indexAll_loop.simps [simp del]

text \<open>\<open>allSessions.findIndex(p)\<close>, \<open>None\<close> for \<open>-1\<close>.\<close>

fun findIndex :: "('a \<Rightarrow> bool) \<Rightarrow> 'a list \<Rightarrow> nat option" where
  "findIndex p [] = None"
| "findIndex p (x # xs) = (if p x then Some 0 else map_option Suc (findIndex p xs))"

text \<open>
  Reading the checkpoint at the start of \<open>indexAll\<close>: the index to resume from and the
  count of processed sessions to start with, or \<open>None\<close> to start from the beginning (a
  fresh start, no file, a file that does not parse, or a session id that is not listed).
\<close>

definition load_checkpoint ::
  "ChunkIndexingOptions \<Rightarrow> checkpoint_file option \<Rightarrow> Session list \<Rightarrow> (nat \<times> nat) option" where
  "load_checkpoint opts ckpt allSessions =
     (if io_freshStart opts = Some True then None
      else
        (case ckpt of
           Some (Saved checkpoint) \<Rightarrow>
             if truthy (cp_lastProcessedSessionId checkpoint) then
               (case findIndex (\<lambda>s. Some (s_id s) = cp_lastProcessedSessionId checkpoint)
                       allSessions of
                  Some idx \<Rightarrow> Some (idx + 1, cp_processedCount checkpoint)
                | None \<Rightarrow> None)
             else None
         | _ \<Rightarrow> None))"

text \<open>
  The end of \<open>indexAll\<close>, given how the loop ended: an error of the loop is thrown on;
  otherwise the checkpoint file is deleted if it exists (\<open>unlinkSync\<close> may throw) and the
  result returned with its duration.
\<close>

definition finish_run ::
  "indexer_env \<Rightarrow> (index_error + ChunkIndexingResult) \<times> checkpoint_file option \<Rightarrow>
   (index_error + ChunkIndexingResult) \<times> checkpoint_file option" where
  "finish_run env ended =
     (case ended of
        (Inl e, ckpt1) \<Rightarrow> (Inl e, ckpt1)
      | (Inr result, ckpt1) \<Rightarrow>
          if ckpt1 = None \<or> unlink_ok env
          then (Inr (result\<lparr>index_duration := index_elapsed_ms env\<rparr>), None)
          else (Inl UnlinkFailed, ckpt1))"

text \<open>
  \<open>indexAll\<close>, started with the checkpoint file \<open>ckpt\<close>: it returns the result or throws,
  and leaves a checkpoint file.
\<close>

definition indexAll ::
  "indexer_env \<Rightarrow> ChunkIndexingOptions \<Rightarrow> checkpoint_file option \<Rightarrow>
   (index_error + ChunkIndexingResult) \<times> checkpoint_file option" where
  "indexAll env opts ckpt =
     (case findAll env of
        None \<Rightarrow> (Inl EnumerationFailed, ckpt)
      | Some allSessions \<Rightarrow>
          (let result0 =
                 \<lparr>totalSessions = length allSessions, processedSessions = 0,
                  skippedSessions = 0, totalChunks = 0, index_errors = 0, index_duration = 0\<rparr>;
               resumed = load_checkpoint opts ckpt allSessions;
               startIndex = (case resumed of None \<Rightarrow> 0 | Some (idx, n) \<Rightarrow> idx);
               result1 =
                 (case resumed of
                    None \<Rightarrow> result0
                  | Some (idx, n) \<Rightarrow> result0\<lparr>processedSessions := n\<rparr>)
           in finish_run env (indexAll_loop env opts allSessions startIndex result1 ckpt)))"

subsection \<open>A sample indexing run\<close>

text \<open>
  Two sessions with one user message each, indexed in batches of one, on a disk where no
  checkpoint can be written.
\<close>

definition ex_env :: indexer_env where
  "ex_env =
     \<lparr>findAll = Some [ex_session, ex_session\<lparr>s_id := ''s2''\<rparr>],
      findBySession = (\<lambda>sid. Some [ex_message 1 ''user'' ''git'' ''2025-01-01T10:00:00Z'']),
      upsertChunks = (\<lambda>docs concurrency. True),
      write_ok = (\<lambda>i. False), unlink_ok = True,
      date_parse = ex_parseDate, chunk_clock = (\<lambda>n. ''2025-02-01T00:00:00.000Z''),
      checkpoint_clock = (\<lambda>i. ''2025-02-01T00:00:01.000Z''), index_elapsed_ms = 7\<rparr>"

definition ex_index_options :: ChunkIndexingOptions where
  "ex_index_options =
     \<lparr>io_batchSize = Some 1, io_concurrency = None, io_onProgress = None,
      io_freshStart = None\<rparr>"

section \<open>Properties of ChunkManager\<close>

lemma length_emitGroup:
  "length (emitGroup clock session t lg n ps) = length ps"
  by (induction ps arbitrary: n) simp_all

lemma nth_emitGroup:
  "k < length ps \<Longrightarrow>
   emitGroup clock session t lg n ps ! k =
     makeChunk clock session t (ps ! k) (n + k + 1) (k + 1 < length ps \<or> \<not> lg)"
proof (induction ps arbitrary: n k)
  case Nil
  then show ?case by simp
next
  case (Cons p ps)
  show ?case
  proof (cases k)
    case 0
    then show ?thesis by (cases ps) simp_all
  next
    case (Suc j)
    with Cons.prems have "j < length ps" by simp
    from Cons.IH [OF this, of "n + 1"] Suc show ?thesis by simp
  qed
qed

lemma length_emitGroups:
  "length (emitGroups clock session n gs) = sum_list (map (\<lambda>g. length (pairs g)) gs)"
  by (induction gs arbitrary: n) (simp_all add: length_emitGroup)

lemma emitGroups_nonempty:
  assumes "gs \<noteq> []" and "list_all (\<lambda>g. pairs g \<noteq> []) gs"
  shows "\<exists>m. length (emitGroups clock session n gs) = Suc m"
proof -
  from assms(1) obtain g gs' where gs: "gs = g # gs'" by (cases gs) auto
  with assms(2) obtain p ps where "pairs g = p # ps" by (cases "pairs g") auto
  with gs show ?thesis by simp
qed

lemma chain_link_makeChunk:
  "chain_link (s_id session) q h (makeChunk clock session t p q h)"
  by (simp add: chain_link_def makeChunk_def)

lemma nth_emitGroups_link:
  "list_all (\<lambda>g. pairs g \<noteq> []) gs \<Longrightarrow> k < length (emitGroups clock session n gs) \<Longrightarrow>
   chain_link (s_id session) (n + k + 1) (k + 1 < length (emitGroups clock session n gs))
     (emitGroups clock session n gs ! k)"
proof (induction gs arbitrary: n k)
  case Nil
  then show ?case by simp
next
  case (Cons g gs)
  let ?A = "emitGroup clock session (topic g) (gs = []) n (pairs g)"
  let ?B = "emitGroups clock session (n + length (pairs g)) gs"
  have lenA: "length ?A = length (pairs g)" by (rule length_emitGroup)
  from Cons.prems have ne: "list_all (\<lambda>g. pairs g \<noteq> []) gs" by simp
  show ?case
  proof (cases "k < length (pairs g)")
    case True
    have h: "(k + 1 < length (pairs g) \<or> gs \<noteq> []) = (k + 1 < length (?A @ ?B))"
    proof (cases "gs = []")
      case True
      then show ?thesis using lenA by simp
    next
      case False
      from emitGroups_nonempty [OF False ne] obtain m where "length ?B = Suc m" by blast
      with False \<open>k < length (pairs g)\<close> lenA show ?thesis by simp
    qed
    have "(?A @ ?B) ! k = makeChunk clock session (topic g) (pairs g ! k) (n + k + 1)
             (k + 1 < length (pairs g) \<or> gs \<noteq> [])"
      using True lenA by (simp add: nth_append nth_emitGroup)
    then show ?thesis
      using h chain_link_makeChunk [of session "n + k + 1" _ clock "topic g" "pairs g ! k"]
      by simp
  next
    case False
    let ?j = "k - length (pairs g)"
    from False Cons.prems(2) lenA have j: "?j < length ?B" by simp
    have nth: "(?A @ ?B) ! k = ?B ! ?j" using False lenA by (simp add: nth_append)
    have "(k + 1 < length (?A @ ?B)) = (?j + 1 < length ?B)" using False lenA by auto
    moreover have "n + length (pairs g) + ?j + 1 = n + k + 1" using False by simp
    ultimately show ?thesis
      using Cons.IH [OF ne j] nth by simp
  qed
qed

lemma detectTopicGroups_loop_nonempty:
  "list_all (\<lambda>g. pairs g \<noteq> []) groups \<Longrightarrow> pairs cur \<noteq> [] \<Longrightarrow>
   list_all (\<lambda>g. pairs g \<noteq> []) (detectTopicGroups_loop parseDate groups cur ps)"
  by (induction ps arbitrary: groups cur) (simp_all add: Let_def)

lemma detectTopicGroups_nonempty:
  "list_all (\<lambda>g. pairs g \<noteq> []) (detectTopicGroups parseDate ps)"
  by (cases ps) (simp_all add: detectTopicGroups_def detectTopicGroups_loop_nonempty)

lemma processSession_link:
  assumes "k < length (processSession parseDate clock session messages)"
  shows "chain_link (s_id session) (k + 1)
           (k + 1 < length (processSession parseDate clock session messages))
           (processSession parseDate clock session messages ! k)"
proof -
  let ?ms = "filter (\<lambda>m. m_role m \<noteq> ''system'') messages"
  let ?gs = "detectTopicGroups parseDate (createMessagePairs ?ms)"
  from assms have ne: "?ms \<noteq> []" by (auto simp: processSession_def Let_def split: if_splits)
  then have eq: "processSession parseDate clock session messages = emitGroups clock session 0 ?gs"
    by (simp add: processSession_def Let_def)
  from assms nth_emitGroups_link [OF detectTopicGroups_nonempty, of k clock session 0 parseDate "createMessagePairs ?ms"]
  show ?thesis unfolding eq by simp
qed

text \<open>
  Claim C5 (adjacency chain integrity). For every session and message list for which
  \<open>processSession\<close> yields \<open>N \<ge> 1\<close> chunks, the chunk at position \<open>k\<close> (counted from 0) has
  sequence number \<open>k + 1\<close>; its \<open>previous_chunk\<close> is absent for the first chunk and is the
  \<open>chunk_id\<close> of the chunk before it otherwise; its \<open>next_chunk\<close> is the \<open>chunk_id\<close> of the
  chunk after it, and absent for the last chunk.
\<close>

theorem adjacency_chain_integrity:
  assumes "chunks = processSession parseDate clock session messages"
    and "1 \<le> length chunks" and "k < length chunks"
  shows "sequence_number (chunks ! k) = k + 1 \<and>
         previous_chunk (chunks ! k) = (if k = 0 then None else Some (chunk_id (chunks ! (k - 1)))) \<and>
         next_chunk (chunks ! k) =
           (if k + 1 < length chunks then Some (chunk_id (chunks ! (k + 1))) else None)"
proof -
  have link: "\<And>j. j < length chunks \<Longrightarrow>
      chain_link (s_id session) (j + 1) (j + 1 < length chunks) (chunks ! j)"
    unfolding assms(1) by (rule processSession_link)
  have cur: "chain_link (s_id session) (k + 1) (k + 1 < length chunks) (chunks ! k)"
    using link assms(3) by blast
  have prev: "chunk_id (chunks ! (k - 1)) = pairChunkId (s_id session) k" if "k \<noteq> 0"
    using link [of "k - 1"] assms(3) that by (simp add: chain_link_def)
  have nxt: "chunk_id (chunks ! (k + 1)) = pairChunkId (s_id session) (k + 2)"
    if "k + 1 < length chunks"
    using link [of "k + 1"] that by (simp add: chain_link_def)
  show ?thesis
    using cur prev nxt by (auto simp: chain_link_def)
qed

lemma concat_pairs_loop:
  "concat (map pairs (detectTopicGroups_loop parseDate groups cur ps)) =
   concat (map pairs groups) @ pairs cur @ ps"
  by (induction ps arbitrary: groups cur) (simp_all add: Let_def)

lemma concat_pairs_detectTopicGroups:
  "concat (map pairs (detectTopicGroups parseDate ps)) = ps"
  by (cases ps) (simp_all add: detectTopicGroups_def concat_pairs_loop)

lemma length_concat_pairs:
  "length (concat (map pairs gs)) = sum_list (map (\<lambda>g. length (pairs g)) gs)"
  by (induction gs) simp_all

lemma length_processSession:
  "length (processSession parseDate clock session messages) =
   length (createMessagePairs (filter (\<lambda>m. m_role m \<noteq> ''system'') messages))"
proof (cases "filter (\<lambda>m. m_role m \<noteq> ''system'') messages = []")
  case True
  then show ?thesis by (simp add: processSession_def)
next
  case False
  then show ?thesis
    by (simp add: processSession_def Let_def length_emitGroups
        flip: length_concat_pairs add: concat_pairs_detectTopicGroups)
qed

lemma ex_pairs_length:
  "length (createMessagePairs (filter (\<lambda>m. m_role m \<noteq> ''system'') ex_messages)) = 3"
  by code_simp

text \<open>The sample conversation yields three chunks; the middle one is linked both ways.\<close>

theorem adjacency_chain_integrity_witness:
  "1 \<le> length (processSession ex_parseDate (\<lambda>n. []) ex_session ex_messages) \<and>
   1 < length (processSession ex_parseDate (\<lambda>n. []) ex_session ex_messages) \<and>
   sequence_number (processSession ex_parseDate (\<lambda>n. []) ex_session ex_messages ! 1) = 2 \<and>
   previous_chunk (processSession ex_parseDate (\<lambda>n. []) ex_session ex_messages ! 1) =
     Some (chunk_id (processSession ex_parseDate (\<lambda>n. []) ex_session ex_messages ! 0)) \<and>
   next_chunk (processSession ex_parseDate (\<lambda>n. []) ex_session ex_messages ! 1) =
     Some (chunk_id (processSession ex_parseDate (\<lambda>n. []) ex_session ex_messages ! 2))"
  using adjacency_chain_integrity [OF refl, of ex_parseDate "\<lambda>n. []" ex_session ex_messages 1]
  by (simp add: length_processSession ex_pairs_length numeral_2_eq_2)

lemma makeChunk_clock:
  "without_processing_date (makeChunk clock1 session t p q h) =
   without_processing_date (makeChunk clock2 session t p q h)"
  by (simp add: without_processing_date_def makeChunk_def)

lemma emitGroup_clock:
  "map without_processing_date (emitGroup clock1 session t lg n ps) =
   map without_processing_date (emitGroup clock2 session t lg n ps)"
  by (induction ps arbitrary: n) (simp_all add: makeChunk_clock)

lemma emitGroups_clock:
  "map without_processing_date (emitGroups clock1 session n gs) =
   map without_processing_date (emitGroups clock2 session n gs)"
  by (induction gs arbitrary: n) (simp_all add: emitGroup_clock)

text \<open>
  Claim C4, as amended. \<open>processSession\<close> is deterministic in every field of every chunk
  except \<open>processing_date\<close>: two invocations on the same session and messages, made at
  any two times, return chunk lists that agree once \<open>processing_date\<close> is blanked.
\<close>

theorem processSession_deterministic_up_to_processing_date:
  "map without_processing_date (processSession parseDate clock1 session messages) =
   map without_processing_date (processSession parseDate clock2 session messages)"
  by (simp add: processSession_def Let_def emitGroups_clock)

lemma processing_date_emitGroup:
  "k < length ps \<Longrightarrow> processing_date (emitGroup clock session t lg n ps ! k) = clock (n + k + 1)"
  by (simp add: nth_emitGroup makeChunk_def)

lemma processing_date_emitGroups:
  "k < length (emitGroups clock session n gs) \<Longrightarrow>
   processing_date (emitGroups clock session n gs ! k) = clock (n + k + 1)"
proof (induction gs arbitrary: n k)
  case Nil
  then show ?case by simp
next
  case (Cons g gs)
  show ?case
  proof (cases "k < length (pairs g)")
    case True
    then show ?thesis by (simp add: nth_append length_emitGroup processing_date_emitGroup)
  next
    case False
    with Cons.prems have "k - length (pairs g) < length (emitGroups clock session (n + length (pairs g)) gs)"
      by (simp add: length_emitGroup)
    from Cons.IH [OF this] False show ?thesis
      by (simp add: nth_append length_emitGroup)
  qed
qed

lemma processing_date_processSession:
  assumes "k < length (processSession parseDate clock session messages)"
  shows "processing_date (processSession parseDate clock session messages ! k) = clock (k + 1)"
proof -
  from assms have "filter (\<lambda>m. m_role m \<noteq> ''system'') messages \<noteq> []"
    by (auto simp: processSession_def Let_def split: if_splits)
  with assms processing_date_emitGroups [of k clock session 0] show ?thesis
    by (simp add: processSession_def Let_def)
qed

text \<open>
  Claim C4 as stated fails: the same session and messages, chunked at two different
  times, give different chunk lists (the chunks differ in \<open>processing_date\<close>).
\<close>

theorem processSession_depends_on_clock:
  "processSession ex_parseDate (\<lambda>n. ''2025-02-01T00:00:00.000Z'') ex_session ex_messages \<noteq>
   processSession ex_parseDate (\<lambda>n. ''2025-02-01T00:00:00.001Z'') ex_session ex_messages"
proof
  assume eq: "processSession ex_parseDate (\<lambda>n. ''2025-02-01T00:00:00.000Z'') ex_session ex_messages =
    processSession ex_parseDate (\<lambda>n. ''2025-02-01T00:00:00.001Z'') ex_session ex_messages"
  have len: "\<And>clock. 0 < length (processSession ex_parseDate clock ex_session ex_messages)"
    by (simp add: length_processSession ex_pairs_length)
  from processing_date_processSession [OF len, of "\<lambda>n. ''2025-02-01T00:00:00.000Z''"]
    processing_date_processSession [OF len, of "\<lambda>n. ''2025-02-01T00:00:00.001Z''"] eq
  show False by simp
qed

lemma length_groupIndices:
  "length (groupIndices n gs) = length (concat (map pairs gs))"
  by (induction gs arbitrary: n) simp_all

lemma groupIndices_append:
  "groupIndices n (gs @ hs) = groupIndices n gs @ groupIndices (n + length gs) hs"
  by (induction gs arbitrary: n) simp_all

lemma take_replicate_Cons:
  "take k (x # replicate k x) = replicate k x"
  by (induction k) simp_all

lemma nth_Cons_replicate:
  "(x # replicate m x @ ys) ! m = x"
  by (induction m) simp_all

lemma groupIndices_loop_prefix:
  "take (length (concat (map pairs groups)) + length (pairs cur))
     (groupIndices n (detectTopicGroups_loop parseDate groups cur ps)) =
   groupIndices n groups @ replicate (length (pairs cur)) (n + length groups)"
proof (induction ps arbitrary: groups cur)
  case Nil
  then show ?case by (simp add: groupIndices_append length_groupIndices)
next
  case (Cons p ps)
  let ?m = "length (concat (map pairs groups)) + length (pairs cur)"
  let ?new = "\<lparr>topic = extractTopic p, pairs = [p]\<rparr>"
  let ?ext = "cur\<lparr>pairs := pairs cur @ [p]\<rparr>"
  let ?split = "number_gt (getTimeGapMinutes parseDate (pair_timestamp (last (pairs cur)))
                  (pair_timestamp p)) 30 \<or> \<not> isTopicSimilar (topic cur) (extractTopic p)"
  show ?case
  proof (cases ?split)
    case True
    let ?r = "groupIndices n (detectTopicGroups_loop parseDate (groups @ [cur]) ?new ps)"
    from Cons.IH [of "groups @ [cur]" ?new]
    have "take (Suc ?m) ?r = groupIndices n (groups @ [cur]) @ [Suc (n + length groups)]"
      by simp
    then have "take ?m (take (Suc ?m) ?r) =
        take ?m (groupIndices n (groups @ [cur]) @ [Suc (n + length groups)])"
      by simp
    then have "take ?m ?r = groupIndices n (groups @ [cur])"
      by (simp add: groupIndices_append length_groupIndices)
    with True show ?thesis by (simp add: Let_def groupIndices_append)
  next
    case False
    let ?r = "groupIndices n (detectTopicGroups_loop parseDate groups ?ext ps)"
    from Cons.IH [of groups ?ext]
    have "take (Suc ?m) ?r = groupIndices n groups @ replicate (Suc (length (pairs cur))) (n + length groups)"
      by simp
    then have "take ?m (take (Suc ?m) ?r) =
        take ?m (groupIndices n groups @ replicate (Suc (length (pairs cur))) (n + length groups))"
      by simp
    then have "take ?m ?r = groupIndices n groups @ replicate (length (pairs cur)) (n + length groups)"
      by (simp add: length_groupIndices take_replicate_Cons)
    with False show ?thesis by (simp add: Let_def)
  qed
qed

lemma groupIndices_loop_nth:
  assumes "j < length (concat (map pairs groups)) + length (pairs cur)"
  shows "groupIndices n (detectTopicGroups_loop parseDate groups cur ps) ! j =
         (groupIndices n groups @ replicate (length (pairs cur)) (n + length groups)) ! j"
proof -
  have "groupIndices n (detectTopicGroups_loop parseDate groups cur ps) ! j =
        take (length (concat (map pairs groups)) + length (pairs cur))
          (groupIndices n (detectTopicGroups_loop parseDate groups cur ps)) ! j"
    using assms by simp
  then show ?thesis by (simp only: groupIndices_loop_prefix)
qed

lemma gap_splits_loop:
  assumes "pairs cur \<noteq> []"
    and "all = concat (map pairs groups) @ pairs cur @ ps"
    and "off = length (concat (map pairs groups)) + length (pairs cur)"
    and "off \<le> Suc j" and "Suc j < length all"
    and "number_gt (getTimeGapMinutes parseDate (pair_timestamp (all ! j))
           (pair_timestamp (all ! Suc j))) 30"
  shows "groupIndices n (detectTopicGroups_loop parseDate groups cur ps) ! Suc j =
         Suc (groupIndices n (detectTopicGroups_loop parseDate groups cur ps) ! j)"
  using assms
proof (induction ps arbitrary: groups cur off)
  case Nil
  then show ?case by simp
next
  case (Cons p ps)
  let ?new = "\<lparr>topic = extractTopic p, pairs = [p]\<rparr>"
  let ?ext = "cur\<lparr>pairs := pairs cur @ [p]\<rparr>"
  let ?split = "number_gt (getTimeGapMinutes parseDate (pair_timestamp (last (pairs cur)))
                  (pair_timestamp p)) 30 \<or> \<not> isTopicSimilar (topic cur) (extractTopic p)"
  let ?L = "length (concat (map pairs groups))"
  show ?case
  proof (cases "off = Suc j")
    case True
    from Cons.prems(1) obtain m where m: "length (pairs cur) = Suc m"
      by (cases "pairs cur") auto
    with True Cons.prems(3) have j: "j = ?L + m" by simp
    from m have pos: "0 < length (pairs cur)" by simp
    have "last (pairs cur) = pairs cur ! m"
      using Cons.prems(1) m by (simp add: last_conv_nth)
    then have allj: "all ! j = last (pairs cur)"
      using Cons.prems(2) j m by (simp add: nth_append)
    have allSj: "all ! Suc j = p"
      using Cons.prems(2,3) True by (simp add: nth_append)
    from Cons.prems(6) allj allSj have split: ?split by simp
    let ?r = "groupIndices n (detectTopicGroups_loop parseDate (groups @ [cur]) ?new ps)"
    have r: "groupIndices n (detectTopicGroups_loop parseDate groups cur (p # ps)) = ?r"
      using split by (simp add: Let_def)
    have "?r ! Suc j = (groupIndices n (groups @ [cur]) @ replicate (length (pairs ?new)) (n + length (groups @ [cur]))) ! Suc j"
      by (rule groupIndices_loop_nth) (use True Cons.prems(3) in simp)
    also have "\<dots> = Suc (n + length groups)"
      using True Cons.prems(3)
      by (simp add: nth_append groupIndices_append length_groupIndices)
    finally have a: "?r ! Suc j = Suc (n + length groups)" .
    have "?r ! j = (groupIndices n (groups @ [cur]) @ replicate (length (pairs ?new)) (n + length (groups @ [cur]))) ! j"
      by (rule groupIndices_loop_nth) (use j m in simp)
    also have "\<dots> = n + length groups"
      using j m by (simp add: nth_append groupIndices_append length_groupIndices nth_Cons_replicate)
    finally have b: "?r ! j = n + length groups" .
    from a b r show ?thesis by simp
  next
    case False
    with Cons.prems(4) have le: "Suc off \<le> Suc j" by simp
    show ?thesis
    proof (cases ?split)
      case True
      have "groupIndices n (detectTopicGroups_loop parseDate (groups @ [cur]) ?new ps) ! Suc j =
            Suc (groupIndices n (detectTopicGroups_loop parseDate (groups @ [cur]) ?new ps) ! j)"
        by (rule Cons.IH [where off = "Suc off"])
           (use Cons.prems le in simp_all)
      with True show ?thesis by (simp add: Let_def)
    next
      case False
      have "groupIndices n (detectTopicGroups_loop parseDate groups ?ext ps) ! Suc j =
            Suc (groupIndices n (detectTopicGroups_loop parseDate groups ?ext ps) ! j)"
        by (rule Cons.IH [where off = "Suc off"])
           (use Cons.prems le in simp_all)
      with False show ?thesis by (simp add: Let_def)
    qed
  qed
qed

lemma gap_splits_detectTopicGroups:
  assumes "Suc i < length ps"
    and "number_gt (getTimeGapMinutes parseDate (pair_timestamp (ps ! i))
           (pair_timestamp (ps ! Suc i))) 30"
  shows "groupIndices 0 (detectTopicGroups parseDate ps) ! Suc i =
         Suc (groupIndices 0 (detectTopicGroups parseDate ps) ! i)"
proof (cases ps)
  case Nil
  with assms show ?thesis by simp
next
  case (Cons first rest)
  have "groupIndices 0 (detectTopicGroups_loop parseDate []
           \<lparr>topic = extractTopic first, pairs = [first]\<rparr> rest) ! Suc i =
        Suc (groupIndices 0 (detectTopicGroups_loop parseDate []
           \<lparr>topic = extractTopic first, pairs = [first]\<rparr> rest) ! i)"
    by (rule gap_splits_loop [where all = ps and off = 1])
       (use assms Cons in simp_all)
  with Cons show ?thesis by (simp add: detectTopicGroups_def)
qed

lemma timestamp_emitGroups:
  "k < length (emitGroups clock session n gs) \<Longrightarrow>
   timestamp (emitGroups clock session n gs ! k) = pair_timestamp (concat (map pairs gs) ! k)"
proof (induction gs arbitrary: n k)
  case Nil
  then show ?case by simp
next
  case (Cons g gs)
  show ?case
  proof (cases "k < length (pairs g)")
    case True
    then show ?thesis by (simp add: nth_append length_emitGroup nth_emitGroup makeChunk_def)
  next
    case False
    with Cons.prems have "k - length (pairs g) < length (emitGroups clock session (n + length (pairs g)) gs)"
      by (simp add: length_emitGroup)
    from Cons.IH [OF this] False show ?thesis
      by (simp add: nth_append length_emitGroup)
  qed
qed

lemma timestamp_processSession:
  assumes "k < length (processSession parseDate clock session messages)"
  shows "timestamp (processSession parseDate clock session messages ! k) =
         pair_timestamp (createMessagePairs (filter (\<lambda>m. m_role m \<noteq> ''system'') messages) ! k)"
proof -
  from assms have "filter (\<lambda>m. m_role m \<noteq> ''system'') messages \<noteq> []"
    by (auto simp: processSession_def Let_def split: if_splits)
  with assms timestamp_emitGroups [of k clock session 0] show ?thesis
    by (simp add: processSession_def Let_def concat_pairs_detectTopicGroups)
qed

text \<open>
  Claim C6, as amended. Two consecutive message pairs carrying the same topic keyword
  whose time stamps are more than 30 minutes apart are placed in different topic groups
  (the second in the group right after the first one's). The adjacency chain is not
  broken there: the chunk of the first pair names the chunk of the second as its
  \<open>next_chunk\<close>, and the chunk of the second names the first as its \<open>previous_chunk\<close>.
\<close>

theorem time_gap_splits_groups_chain_continues:
  assumes "ps = createMessagePairs (filter (\<lambda>m. m_role m \<noteq> ''system'') messages)"
    and "i + 1 < length ps"
    and "extractTopic (ps ! i) = extractTopic (ps ! (i + 1))"
    and "number_gt (getTimeGapMinutes parseDate (pair_timestamp (ps ! i))
           (pair_timestamp (ps ! (i + 1)))) 30"
    and "gs = detectTopicGroups parseDate ps"
    and "chunks = processSession parseDate clock session messages"
  shows "concat (map pairs gs) = ps \<and>
         groupIndices 0 gs ! (i + 1) = groupIndices 0 gs ! i + 1 \<and>
         length chunks = length ps \<and>
         timestamp (chunks ! i) = pair_timestamp (ps ! i) \<and>
         timestamp (chunks ! (i + 1)) = pair_timestamp (ps ! (i + 1)) \<and>
         next_chunk (chunks ! i) = Some (chunk_id (chunks ! (i + 1))) \<and>
         previous_chunk (chunks ! (i + 1)) = Some (chunk_id (chunks ! i))"
proof -
  have len: "length chunks = length ps"
    unfolding assms(1,6) by (rule length_processSession)
  have c: "concat (map pairs gs) = ps"
    unfolding assms(5) by (rule concat_pairs_detectTopicGroups)
  have g: "groupIndices 0 gs ! (i + 1) = groupIndices 0 gs ! i + 1"
    unfolding assms(5) using gap_splits_detectTopicGroups [of i ps parseDate] assms(2,4) by simp
  from assms(2) len have i: "i < length chunks" and si: "i + 1 < length chunks" by simp_all
  have t1: "timestamp (chunks ! i) = pair_timestamp (ps ! i)"
    using timestamp_processSession [of i parseDate clock session messages] i
    unfolding assms(1,6) by simp
  have t2: "timestamp (chunks ! (i + 1)) = pair_timestamp (ps ! (i + 1))"
    using timestamp_processSession [of "i + 1" parseDate clock session messages] si
    unfolding assms(1,6) by simp
  have l1: "chain_link (s_id session) (i + 1) (i + 1 < length chunks) (chunks ! i)"
    using processSession_link [of i parseDate clock session messages] i unfolding assms(6) by simp
  have l2: "chain_link (s_id session) (i + 1 + 1) (i + 1 + 1 < length chunks) (chunks ! (i + 1))"
    using processSession_link [of "i + 1" parseDate clock session messages] si
    unfolding assms(6) by simp
  from l1 l2 si have n: "next_chunk (chunks ! i) = Some (chunk_id (chunks ! (i + 1)))"
    and p: "previous_chunk (chunks ! (i + 1)) = Some (chunk_id (chunks ! i))"
    by (simp_all add: chain_link_def)
  from len c g t1 t2 n p show ?thesis by simp
qed

lemma ex_topics:
  "extractTopic (createMessagePairs (filter (\<lambda>m. m_role m \<noteq> ''system'') ex_messages) ! 0) = ''git''"
  "extractTopic (createMessagePairs (filter (\<lambda>m. m_role m \<noteq> ''system'') ex_messages) ! (0 + 1)) = ''git''"
  by code_simp+

lemma ex_gap:
  "number_gt (getTimeGapMinutes ex_parseDate
     (pair_timestamp (createMessagePairs (filter (\<lambda>m. m_role m \<noteq> ''system'') ex_messages) ! 0))
     (pair_timestamp (createMessagePairs (filter (\<lambda>m. m_role m \<noteq> ''system'') ex_messages) ! (0 + 1)))) 30"
  by code_simp

lemma ex_groupIndices:
  "groupIndices 0 (detectTopicGroups ex_parseDate
     (createMessagePairs (filter (\<lambda>m. m_role m \<noteq> ''system'') ex_messages))) = [0, 1, 2]"
  by code_simp

text \<open>
  In the sample conversation the first two pairs are both about git and 59 minutes
  apart; they lie in different groups and their chunks are linked both ways.
\<close>

theorem time_gap_splits_groups_chain_continues_witness:
  "0 + 1 < length (createMessagePairs (filter (\<lambda>m. m_role m \<noteq> ''system'') ex_messages)) \<and>
   extractTopic (createMessagePairs (filter (\<lambda>m. m_role m \<noteq> ''system'') ex_messages) ! 0) =
     extractTopic (createMessagePairs (filter (\<lambda>m. m_role m \<noteq> ''system'') ex_messages) ! (0 + 1)) \<and>
   number_gt (getTimeGapMinutes ex_parseDate
     (pair_timestamp (createMessagePairs (filter (\<lambda>m. m_role m \<noteq> ''system'') ex_messages) ! 0))
     (pair_timestamp (createMessagePairs (filter (\<lambda>m. m_role m \<noteq> ''system'') ex_messages) ! (0 + 1)))) 30 \<and>
   groupIndices 0 (detectTopicGroups ex_parseDate
       (createMessagePairs (filter (\<lambda>m. m_role m \<noteq> ''system'') ex_messages))) ! (0 + 1) =
     groupIndices 0 (detectTopicGroups ex_parseDate
       (createMessagePairs (filter (\<lambda>m. m_role m \<noteq> ''system'') ex_messages))) ! 0 + 1 \<and>
   next_chunk (processSession ex_parseDate (\<lambda>n. []) ex_session ex_messages ! 0) =
     Some (chunk_id (processSession ex_parseDate (\<lambda>n. []) ex_session ex_messages ! (0 + 1))) \<and>
   previous_chunk (processSession ex_parseDate (\<lambda>n. []) ex_session ex_messages ! (0 + 1)) =
     Some (chunk_id (processSession ex_parseDate (\<lambda>n. []) ex_session ex_messages ! 0))"
proof -
  have h2: "0 + 1 < length (createMessagePairs (filter (\<lambda>m. m_role m \<noteq> ''system'') ex_messages))"
    by (simp add: ex_pairs_length)
  have h3: "extractTopic (createMessagePairs (filter (\<lambda>m. m_role m \<noteq> ''system'') ex_messages) ! 0) =
     extractTopic (createMessagePairs (filter (\<lambda>m. m_role m \<noteq> ''system'') ex_messages) ! (0 + 1))"
    by (simp only: ex_topics)
  from time_gap_splits_groups_chain_continues [OF refl h2 h3 ex_gap refl refl,
      of "\<lambda>n. []" ex_session] h2 h3 ex_gap
  show ?thesis by blast
qed

text \<open>
  Claim C6 as stated fails in its second half. In the sample conversation the first two
  pairs carry the keyword git and are 59 minutes apart; they fall into groups 0 and 1,
  yet the chain is unbroken: chunk 1 is the \<open>next_chunk\<close> of chunk 0 and chunk 0 the
  \<open>previous_chunk\<close> of chunk 1.
\<close>

theorem time_gap_chain_not_broken:
  "extractTopic (createMessagePairs (filter (\<lambda>m. m_role m \<noteq> ''system'') ex_messages) ! 0) = ''git'' \<and>
   extractTopic (createMessagePairs (filter (\<lambda>m. m_role m \<noteq> ''system'') ex_messages) ! (0 + 1)) = ''git'' \<and>
   number_gt (getTimeGapMinutes ex_parseDate
     (pair_timestamp (createMessagePairs (filter (\<lambda>m. m_role m \<noteq> ''system'') ex_messages) ! 0))
     (pair_timestamp (createMessagePairs (filter (\<lambda>m. m_role m \<noteq> ''system'') ex_messages) ! (0 + 1)))) 30 \<and>
   groupIndices 0 (detectTopicGroups ex_parseDate
     (createMessagePairs (filter (\<lambda>m. m_role m \<noteq> ''system'') ex_messages))) = [0, 1, 2] \<and>
   next_chunk (processSession ex_parseDate (\<lambda>n. []) ex_session ex_messages ! 0) =
     Some (chunk_id (processSession ex_parseDate (\<lambda>n. []) ex_session ex_messages ! (0 + 1))) \<and>
   previous_chunk (processSession ex_parseDate (\<lambda>n. []) ex_session ex_messages ! (0 + 1)) =
     Some (chunk_id (processSession ex_parseDate (\<lambda>n. []) ex_session ex_messages ! 0))"
proof -
  have len: "length (processSession ex_parseDate (\<lambda>n. []) ex_session ex_messages) = 3"
    by (simp add: length_processSession ex_pairs_length)
  have l0: "chain_link (s_id ex_session) (0 + 1) True
      (processSession ex_parseDate (\<lambda>n. []) ex_session ex_messages ! 0)"
    using processSession_link [of 0 ex_parseDate "\<lambda>n. []" ex_session ex_messages] len by simp
  have l1: "chain_link (s_id ex_session) (0 + 1 + 1) True
      (processSession ex_parseDate (\<lambda>n. []) ex_session ex_messages ! (0 + 1))"
    using processSession_link [of "0 + 1" ex_parseDate "\<lambda>n. []" ex_session ex_messages] len by simp
  from l0 l1 have
    "next_chunk (processSession ex_parseDate (\<lambda>n. []) ex_session ex_messages ! 0) =
       Some (chunk_id (processSession ex_parseDate (\<lambda>n. []) ex_session ex_messages ! (0 + 1)))"
    "previous_chunk (processSession ex_parseDate (\<lambda>n. []) ex_session ex_messages ! (0 + 1)) =
       Some (chunk_id (processSession ex_parseDate (\<lambda>n. []) ex_session ex_messages ! 0))"
    by (simp_all add: chain_link_def)
  with ex_topics ex_gap ex_groupIndices show ?thesis by blast
qed

section \<open>Properties of EmbeddingService\<close>

lemma length_workers_loop_head [simp]:
  "length (workers (loop_head n w st)) = length (workers st)"
  by (simp add: loop_head_def Let_def)

lemma length_workers_resume [simp]:
  "length (workers (resume ollama texts w st)) = length (workers st)"
  by (simp add: resume_def split: worker.splits)

lemma length_workers_run [simp]:
  "length (workers (fold (resume ollama texts) schedule st)) = length (workers st)"
  by (induction schedule arbitrary: st) simp_all

lemma pool_inv_loop_head:
  assumes inv: "pool_inv ollama texts st" and w: "w < length (workers st)"
    and own: "\<And>i. workers st ! w = Awaiting i \<Longrightarrow> results st ! i = Some (slot_value ollama texts i)"
  shows "pool_inv ollama texts (loop_head (length texts) w st)"
proof (cases "cursor st < length texts")
  case True
  let ?st = "st\<lparr>cursor := cursor st + 1, workers := (workers st)[w := Awaiting (cursor st)]\<rparr>"
  have eq: "loop_head (length texts) w st = ?st"
    using True by (simp add: loop_head_def Let_def)
  have a: "\<forall>v i. v < length (workers ?st) \<and> workers ?st ! v = Awaiting i \<longrightarrow> i < cursor ?st"
  proof (intro allI impI)
    fix v i assume h: "v < length (workers ?st) \<and> workers ?st ! v = Awaiting i"
    show "i < cursor ?st"
    proof (cases "v = w")
      case True
      with h w show ?thesis by simp
    next
      case False
      with h inv have "i < cursor st" by (auto simp: pool_inv_def)
      then show ?thesis by simp
    qed
  qed
  have b: "\<forall>i < cursor ?st. results ?st ! i = Some (slot_value ollama texts i) \<or>
            (\<exists>v < length (workers ?st). workers ?st ! v = Awaiting i)"
  proof (intro allI impI)
    fix i assume i: "i < cursor ?st"
    show "results ?st ! i = Some (slot_value ollama texts i) \<or>
            (\<exists>v < length (workers ?st). workers ?st ! v = Awaiting i)"
    proof (cases "i = cursor st")
      case True
      with w show ?thesis by auto
    next
      case False
      with i have "i < cursor st" by simp
      with inv have "results st ! i = Some (slot_value ollama texts i) \<or>
            (\<exists>v < length (workers st). workers st ! v = Awaiting i)"
        by (simp add: pool_inv_def)
      then show ?thesis
      proof
        assume "results st ! i = Some (slot_value ollama texts i)"
        then show ?thesis by simp
      next
        assume "\<exists>v < length (workers st). workers st ! v = Awaiting i"
        then obtain v where v: "v < length (workers st)" "workers st ! v = Awaiting i" by blast
        show ?thesis
        proof (cases "v = w")
          case True
          with v own show ?thesis by simp
        next
          case False
          with v have "v < length (workers ?st) \<and> workers ?st ! v = Awaiting i" by simp
          then show ?thesis by blast
        qed
      qed
    qed
  qed
  have c: "(\<exists>v < length (workers ?st). workers ?st ! v = Finished) \<longrightarrow> length texts \<le> cursor ?st"
  proof
    assume "\<exists>v < length (workers ?st). workers ?st ! v = Finished"
    then obtain v where v: "v < length (workers ?st)" "workers ?st ! v = Finished" by blast
    with w have "v \<noteq> w" by auto
    with v have "v < length (workers st) \<and> workers st ! v = Finished" by simp
    with inv have "length texts \<le> cursor st" by (auto simp: pool_inv_def)
    then show "length texts \<le> cursor ?st" by simp
  qed
  from inv True have "length (results ?st) = length texts \<and> cursor ?st \<le> length texts"
    by (simp add: pool_inv_def)
  with a b c show ?thesis unfolding eq pool_inv_def by blast
next
  case False
  let ?st = "st\<lparr>workers := (workers st)[w := Finished]\<rparr>"
  have eq: "loop_head (length texts) w st = ?st"
    using False by (simp add: loop_head_def)
  from inv False have cur: "cursor st = length texts" by (simp add: pool_inv_def)
  have a: "\<forall>v i. v < length (workers ?st) \<and> workers ?st ! v = Awaiting i \<longrightarrow> i < cursor ?st"
  proof (intro allI impI)
    fix v i assume h: "v < length (workers ?st) \<and> workers ?st ! v = Awaiting i"
    with w have "v \<noteq> w" by auto
    with h inv show "i < cursor ?st" by (auto simp: pool_inv_def)
  qed
  have b: "\<forall>i < cursor ?st. results ?st ! i = Some (slot_value ollama texts i) \<or>
            (\<exists>v < length (workers ?st). workers ?st ! v = Awaiting i)"
  proof (intro allI impI)
    fix i assume i: "i < cursor ?st"
    with inv have "results st ! i = Some (slot_value ollama texts i) \<or>
          (\<exists>v < length (workers st). workers st ! v = Awaiting i)"
      by (simp add: pool_inv_def)
    then show "results ?st ! i = Some (slot_value ollama texts i) \<or>
            (\<exists>v < length (workers ?st). workers ?st ! v = Awaiting i)"
    proof
      assume "results st ! i = Some (slot_value ollama texts i)"
      then show ?thesis by simp
    next
      assume "\<exists>v < length (workers st). workers st ! v = Awaiting i"
      then obtain v where v: "v < length (workers st)" "workers st ! v = Awaiting i" by blast
      show ?thesis
      proof (cases "v = w")
        case True
        with v own show ?thesis by simp
      next
        case False
        with v have "v < length (workers ?st) \<and> workers ?st ! v = Awaiting i" by simp
        then show ?thesis by blast
      qed
    qed
  qed
  from inv cur have "length (results ?st) = length texts \<and> cursor ?st \<le> length texts \<and>
      length texts \<le> cursor ?st"
    by (simp add: pool_inv_def)
  with a b show ?thesis unfolding eq pool_inv_def by blast
qed

lemma pool_inv_store:
  assumes inv: "pool_inv ollama texts st" and w: "w < length (workers st)"
    and aw: "workers st ! w = Awaiting index"
  shows "pool_inv ollama texts (st\<lparr>results := (results st)[index := Some (slot_value ollama texts index)]\<rparr>)"
proof -
  let ?st = "st\<lparr>results := (results st)[index := Some (slot_value ollama texts index)]\<rparr>"
  from inv w aw have idx: "index < cursor st" by (auto simp: pool_inv_def)
  with inv have "index < length (results st)" by (simp add: pool_inv_def)
  have "\<forall>i < cursor ?st. results ?st ! i = Some (slot_value ollama texts i) \<or>
            (\<exists>v < length (workers ?st). workers ?st ! v = Awaiting i)"
  proof (intro allI impI)
    fix i assume "i < cursor ?st"
    with inv have old: "results st ! i = Some (slot_value ollama texts i) \<or>
          (\<exists>v < length (workers st). workers st ! v = Awaiting i)"
      by (simp add: pool_inv_def)
    show "results ?st ! i = Some (slot_value ollama texts i) \<or>
            (\<exists>v < length (workers ?st). workers ?st ! v = Awaiting i)"
    proof (cases "i = index")
      case True
      with \<open>index < length (results st)\<close> show ?thesis by simp
    next
      case False
      with old show ?thesis by simp
    qed
  qed
  with inv show ?thesis by (simp add: pool_inv_def)
qed

lemma pool_inv_resume:
  assumes "pool_inv ollama texts st"
  shows "pool_inv ollama texts (resume ollama texts w st)"
proof (cases "w < length (workers st)")
  case False
  with assms show ?thesis by (simp add: resume_def)
next
  case True
  show ?thesis
  proof (cases "workers st ! w")
    case NotStarted
    with assms True show ?thesis by (simp add: resume_def)
  next
    case Finished
    with assms True show ?thesis by (simp add: resume_def)
  next
    case (Awaiting index)
    let ?st = "st\<lparr>results := (results st)[index := Some (slot_value ollama texts index)]\<rparr>"
    have inv': "pool_inv ollama texts ?st"
      using assms True Awaiting by (rule pool_inv_store)
    from assms True Awaiting have "index < cursor st" by (auto simp: pool_inv_def)
    with assms have len: "index < length (results st)" by (simp add: pool_inv_def)
    have "pool_inv ollama texts (loop_head (length texts) w ?st)"
    proof (rule pool_inv_loop_head [OF inv'])
      show "w < length (workers ?st)" using True by simp
    next
      fix i assume "workers ?st ! w = Awaiting i"
      with Awaiting have "i = index" by simp
      with len show "results ?st ! i = Some (slot_value ollama texts i)" by simp
    qed
    with True Awaiting show ?thesis by (simp add: resume_def)
  qed
qed

lemma pool_inv_run:
  "pool_inv ollama texts st \<Longrightarrow> pool_inv ollama texts (fold (resume ollama texts) schedule st)"
  by (induction schedule arbitrary: st) (simp_all add: pool_inv_resume)


lemma workers_loop_head:
  "\<exists>x. x \<noteq> NotStarted \<and> workers (loop_head n w st) = (workers st)[w := x]"
proof (cases "cursor st < n")
  case True
  then have "Awaiting (cursor st) \<noteq> NotStarted \<and>
      workers (loop_head n w st) = (workers st)[w := Awaiting (cursor st)]"
    by (simp add: loop_head_def Let_def)
  then show ?thesis by blast
next
  case False
  then have "Finished \<noteq> NotStarted \<and> workers (loop_head n w st) = (workers st)[w := Finished]"
    by (simp add: loop_head_def)
  then show ?thesis by blast
qed

lemma results_loop_head [simp]:
  "results (loop_head n w st) = results st"
  by (simp add: loop_head_def Let_def)

lemma launch_prefix:
  "k \<le> W \<Longrightarrow>
   pool_inv ollama texts (fold (loop_head (length texts)) [0..<k]
       \<lparr>cursor = 0, results = replicate (length texts) None,
        workers = replicate W NotStarted\<rparr>) \<and>
   length (workers (fold (loop_head (length texts)) [0..<k]
       \<lparr>cursor = 0, results = replicate (length texts) None,
        workers = replicate W NotStarted\<rparr>)) = W \<and>
   (\<forall>v < W.
      (workers (fold (loop_head (length texts)) [0..<k]
       \<lparr>cursor = 0, results = replicate (length texts) None,
        workers = replicate W NotStarted\<rparr>) ! v = NotStarted) = (k \<le> v))"
proof (induction k)
  case 0
  show ?case by (auto simp: pool_inv_def)
next
  case (Suc k)
  let ?st = "fold (loop_head (length texts)) [0..<k]
       \<lparr>cursor = 0, results = replicate (length texts) None,
        workers = replicate W NotStarted\<rparr>"
  from Suc have IH: "pool_inv ollama texts ?st"
    "length (workers ?st) = W"
    "\<forall>v < W. (workers ?st ! v = NotStarted) = (k \<le> v)"
    by simp_all
  from Suc.prems IH(2) have k: "k < length (workers ?st)" by simp
  from Suc.prems IH(3) have ns: "workers ?st ! k = NotStarted" by simp
  have inv: "pool_inv ollama texts (loop_head (length texts) k ?st)"
    by (rule pool_inv_loop_head [OF IH(1) k]) (simp add: ns)
  obtain x where x: "x \<noteq> NotStarted"
    "workers (loop_head (length texts) k ?st) = (workers ?st)[k := x]"
    using workers_loop_head by blast
  have "\<forall>v < W. ((workers ?st)[k := x] ! v = NotStarted) = (Suc k \<le> v)"
  proof (intro allI impI)
    fix v assume "v < W"
    with IH(2) have v: "v < length (workers ?st)" by simp
    show "((workers ?st)[k := x] ! v = NotStarted) = (Suc k \<le> v)"
    proof (cases "v = k")
      case True
      with x(1) k show ?thesis by simp
    next
      case False
      with IH(2,3) v show ?thesis by auto
    qed
  qed
  with inv x(2) IH(2) show ?case by simp
qed

lemma launch_inv:
  "pool_inv ollama texts (launch texts concurrency)"
  "length (workers (launch texts concurrency)) = min concurrency (length texts)"
  "list_all (\<lambda>x. x \<noteq> NotStarted) (workers (launch texts concurrency))"
proof -
  define W where "W = min concurrency (length texts)"
  have l: "launch texts concurrency = fold (loop_head (length texts)) [0..<W]
       \<lparr>cursor = 0, results = replicate (length texts) None,
        workers = replicate W NotStarted\<rparr>"
    by (simp add: launch_def W_def)
  from launch_prefix [of W W ollama texts]
  have p: "pool_inv ollama texts (launch texts concurrency)"
    "length (workers (launch texts concurrency)) = W"
    "\<forall>v < W. (workers (launch texts concurrency) ! v = NotStarted) = (W \<le> v)"
    unfolding l by simp_all
  from p(1) show "pool_inv ollama texts (launch texts concurrency)" .
  from p(2) show "length (workers (launch texts concurrency)) = min concurrency (length texts)"
    by (simp add: W_def)
  from p(2,3) show "list_all (\<lambda>x. x \<noteq> NotStarted) (workers (launch texts concurrency))"
    by (simp add: list_all_length)
qed

lemma started_loop_head:
  "list_all (\<lambda>x. x \<noteq> NotStarted) (workers st) \<Longrightarrow>
   list_all (\<lambda>x. x \<noteq> NotStarted) (workers (loop_head n w st))"
proof -
  assume a: "list_all (\<lambda>x. x \<noteq> NotStarted) (workers st)"
  obtain x where x: "x \<noteq> NotStarted" "workers (loop_head n w st) = (workers st)[w := x]"
    using workers_loop_head by blast
  have "(workers st)[w := x] ! v \<noteq> NotStarted" if "v < length (workers st)" for v
    using that a x(1) by (cases "v = w") (simp_all add: list_all_length)
  with x(2) show ?thesis by (simp add: list_all_length)
qed

lemma started_resume:
  "list_all (\<lambda>x. x \<noteq> NotStarted) (workers st) \<Longrightarrow>
   list_all (\<lambda>x. x \<noteq> NotStarted) (workers (resume ollama texts w st))"
  using started_loop_head [of "st\<lparr>results := r\<rparr>" for r]
  by (simp add: resume_def split: worker.splits)

lemma sum_weight_update:
  "w < length ws \<Longrightarrow> worker_weight (ws ! w) = 1 \<Longrightarrow>
   sum_list (map worker_weight (ws[w := x])) + 1 = sum_list (map worker_weight ws) + worker_weight x"
proof (induction ws arbitrary: w)
  case Nil
  then show ?case by simp
next
  case (Cons a ws)
  show ?case
  proof (cases w)
    case 0
    with Cons.prems show ?thesis by simp
  next
    case (Suc v)
    with Cons.prems Cons.IH [of v] show ?thesis by simp
  qed
qed

lemma resume_decreases:
  assumes "w < length (workers st)" and "workers st ! w = Awaiting index"
  shows "pool_measure (length texts) (resume ollama texts w st) < pool_measure (length texts) st"
proof -
  let ?st = "st\<lparr>results := (results st)[index := Some (slot_value ollama texts index)]\<rparr>"
  have r: "resume ollama texts w st = loop_head (length texts) w ?st"
    using assms by (simp add: resume_def)
  have wt: "worker_weight (workers st ! w) = 1" using assms by (simp add: worker_weight_def)
  show ?thesis
  proof (cases "cursor st < length texts")
    case True
    then have "loop_head (length texts) w ?st =
        ?st\<lparr>cursor := cursor st + 1, workers := (workers st)[w := Awaiting (cursor st)]\<rparr>"
      by (simp add: loop_head_def Let_def)
    moreover have "sum_list (map worker_weight ((workers st)[w := Awaiting (cursor st)])) + 1 =
        sum_list (map worker_weight (workers st)) + 1"
      using sum_weight_update [OF assms(1) wt, where x = "Awaiting (cursor st)"]
      by (simp add: worker_weight_def)
    ultimately show ?thesis using True unfolding r by (simp add: pool_measure_def)
  next
    case False
    then have "loop_head (length texts) w ?st = ?st\<lparr>workers := (workers st)[w := Finished]\<rparr>"
      by (simp add: loop_head_def)
    moreover have "sum_list (map worker_weight ((workers st)[w := Finished])) + 1 =
        sum_list (map worker_weight (workers st))"
      using sum_weight_update [OF assms(1) wt, where x = Finished]
      by (simp add: worker_weight_def)
    ultimately show ?thesis unfolding r by (simp add: pool_measure_def)
  qed
qed

lemma completing_schedule_exists:
  assumes "list_all (\<lambda>x. x \<noteq> NotStarted) (workers st)"
  shows "\<exists>schedule. list_all (\<lambda>x. x = Finished) (workers (fold (resume ollama texts) schedule st))"
  using assms
proof (induction "pool_measure (length texts) st" arbitrary: st rule: less_induct)
  case less
  show ?case
  proof (cases "list_all (\<lambda>x. x = Finished) (workers st)")
    case True
    then have "list_all (\<lambda>x. x = Finished) (workers (fold (resume ollama texts) [] st))" by simp
    then show ?thesis by blast
  next
    case False
    then obtain w where w: "w < length (workers st)" "workers st ! w \<noteq> Finished"
      by (auto simp: list_all_length)
    with less.prems obtain index where aw: "workers st ! w = Awaiting index"
      by (cases "workers st ! w") (auto simp: list_all_length)
    have "\<exists>schedule. list_all (\<lambda>x. x = Finished)
        (workers (fold (resume ollama texts) schedule (resume ollama texts w st)))"
      by (rule less.hyps [OF resume_decreases [OF w(1) aw] started_resume [OF less.prems]])
    then obtain schedule where "list_all (\<lambda>x. x = Finished)
        (workers (fold (resume ollama texts) (w # schedule) st))" by auto
    then show ?thesis by blast
  qed
qed

lemma finished_results:
  assumes inv: "pool_inv ollama texts st"
    and fin: "list_all (\<lambda>x. x = Finished) (workers st)"
    and pool: "length texts = 0 \<or> 0 < length (workers st)"
  shows "results st = map (\<lambda>i. Some (slot_value ollama texts i)) [0..<length texts]"
proof (rule nth_equalityI)
  from inv show "length (results st) = length (map (\<lambda>i. Some (slot_value ollama texts i)) [0..<length texts])"
    by (simp add: pool_inv_def)
next
  fix i assume "i < length (results st)"
  with inv have i: "i < length texts" by (simp add: pool_inv_def)
  with pool have "0 < length (workers st)" by auto
  with fin have "\<exists>w < length (workers st). workers st ! w = Finished"
    by (auto simp: list_all_length)
  with inv have "length texts \<le> cursor st" by (simp add: pool_inv_def)
  with i have ic: "i < cursor st" by simp
  from fin have "\<not> (\<exists>w < length (workers st). workers st ! w = Awaiting i)"
    by (auto simp: list_all_length)
  with inv ic have "results st ! i = Some (slot_value ollama texts i)"
    by (auto simp: pool_inv_def)
  with i show "results st ! i = map (\<lambda>i. Some (slot_value ollama texts i)) [0..<length texts] ! i"
    by simp
qed

text \<open>
  Claim C9. For every list of input texts and every concurrency of at least 1,
  \<open>embedBatch\<close> returns (some order of completion lets every worker finish), and whatever
  the order in which the requests complete, it returns exactly one result per input
  text, the result for text \<open>i\<close> at index \<open>i\<close>: the embedding of that text with its
  estimated token count, or, when that request failed, 768 zeros with token count 0.
  Each slot depends on its own request only.
\<close>

theorem embedBatch_results_in_input_order:
  assumes "1 \<le> concurrency"
  shows "(\<exists>schedule rs. embedBatch ollama texts concurrency schedule = Some rs) \<and>
         (\<forall>schedule rs. embedBatch ollama texts concurrency schedule = Some rs \<longrightarrow>
            length rs = length texts \<and>
            (\<forall>i < length texts.
               rs ! i =
                 Some (case ollama i of
                         Some e \<Rightarrow> \<lparr>embedding = e, result_token_count = estimateTokens (texts ! i)\<rparr>
                       | None \<Rightarrow> \<lparr>embedding = replicate 768 0, result_token_count = 0\<rparr>)))"
proof (intro conjI allI impI)
  from completing_schedule_exists [OF launch_inv(3)]
  obtain schedule where "list_all (\<lambda>x. x = Finished)
      (workers (fold (resume ollama texts) schedule (launch texts concurrency)))" by blast
  then show "\<exists>schedule rs. embedBatch ollama texts concurrency schedule = Some rs"
    by (auto simp: embedBatch_def Let_def)
next
  fix schedule rs
  assume run: "embedBatch ollama texts concurrency schedule = Some rs"
  let ?st = "fold (resume ollama texts) schedule (launch texts concurrency)"
  from run have fin: "list_all (\<lambda>x. x = Finished) (workers ?st)" and rs: "rs = results ?st"
    by (auto simp: embedBatch_def Let_def split: if_splits)
  have inv: "pool_inv ollama texts ?st"
    by (rule pool_inv_run) (rule launch_inv)
  have "length (workers ?st) = min concurrency (length texts)"
    by (simp add: launch_inv(2))
  with assms have "length texts = 0 \<or> 0 < length (workers ?st)" by auto
  from finished_results [OF inv fin this] rs
  have eq: "rs = map (\<lambda>i. Some (slot_value ollama texts i)) [0..<length texts]" by simp
  then show "length rs = length texts" by simp
  fix i assume "i < length texts"
  with eq show "rs ! i =
      Some (case ollama i of
              Some e \<Rightarrow> \<lparr>embedding = e, result_token_count = estimateTokens (texts ! i)\<rparr>
            | None \<Rightarrow> \<lparr>embedding = replicate 768 0, result_token_count = 0\<rparr>)"
    by (simp add: slot_value_def embed_def split: option.splits)
qed

lemma ex_batch_completes:
  "embedBatch ex_ollama ex_texts 2 [1, 0, 1] \<noteq> None"
  by code_simp

text \<open>
  The sample batch with two workers, the second request failing and completing first:
  the results are in input order and the failed slot holds the zero vector.
\<close>

theorem embedBatch_results_in_input_order_witness:
  "(1::nat) \<le> 2 \<and>
   (\<exists>rs. embedBatch ex_ollama ex_texts 2 [1, 0, 1] = Some rs \<and> length rs = 3 \<and>
      rs ! 0 = Some \<lparr>embedding = [1, 2], result_token_count = 2\<rparr> \<and>
      rs ! 1 = Some \<lparr>embedding = replicate 768 0, result_token_count = 0\<rparr> \<and>
      rs ! 2 = Some \<lparr>embedding = [1, 2], result_token_count = 2\<rparr>)"
proof -
  have c: "(1::nat) \<le> 2" by simp
  from ex_batch_completes obtain rs where rs: "embedBatch ex_ollama ex_texts 2 [1, 0, 1] = Some rs"
    by blast
  from embedBatch_results_in_input_order [OF c, of ex_ollama ex_texts] rs
  have "length rs = length ex_texts \<and>
        (\<forall>i < length ex_texts.
           rs ! i =
             Some (case ex_ollama i of
                     Some e \<Rightarrow> \<lparr>embedding = e, result_token_count = estimateTokens (ex_texts ! i)\<rparr>
                   | None \<Rightarrow> \<lparr>embedding = replicate 768 0, result_token_count = 0\<rparr>))"
    by blast
  then have "length rs = 3 \<and>
      rs ! 0 = Some \<lparr>embedding = [1, 2], result_token_count = 2\<rparr> \<and>
      rs ! 1 = Some \<lparr>embedding = replicate 768 0, result_token_count = 0\<rparr> \<and>
      rs ! 2 = Some \<lparr>embedding = [1, 2], result_token_count = 2\<rparr>"
    by (simp add: ex_texts_def ex_ollama_def estimateTokens_def)
  with c rs show ?thesis by blast
qed

section \<open>Properties of JsonlParser\<close>

lemma min_of_snoc:
  "min_of (ts @ [t]) = (case min_of ts of None \<Rightarrow> Some t | Some m \<Rightarrow> Some (min t m))"
  by (cases "ts = []") (simp_all add: min_of_def)

lemma max_of_snoc:
  "max_of (ts @ [t]) = (case max_of ts of None \<Rightarrow> Some t | Some m \<Rightarrow> Some (max t m))"
  by (cases "ts = []") (simp_all add: max_of_def)

lemma min_of_truthy:
  "list_all (\<lambda>t. t \<noteq> []) ts \<Longrightarrow> truthy (min_of ts) = (ts \<noteq> [])"
proof (cases "ts = []")
  case True
  then show ?thesis by (simp add: min_of_def truthy_def)
next
  case False
  assume "list_all (\<lambda>t. t \<noteq> []) ts"
  moreover from False have "Min (set ts) \<in> set ts" by simp
  ultimately have "Min (set ts) \<noteq> []" by (simp add: list_all_iff)
  with False show ?thesis by (simp add: min_of_def truthy_def)
qed

lemma max_of_truthy:
  "list_all (\<lambda>t. t \<noteq> []) ts \<Longrightarrow> truthy (max_of ts) = (ts \<noteq> [])"
proof (cases "ts = []")
  case True
  then show ?thesis by (simp add: max_of_def truthy_def)
next
  case False
  assume "list_all (\<lambda>t. t \<noteq> []) ts"
  moreover from False have "Max (set ts) \<in> set ts" by simp
  ultimately have "Max (set ts) \<noteq> []" by (simp add: list_all_iff)
  with False show ?thesis by (simp add: max_of_def truthy_def)
qed

lemma track_timestamp_inv:
  assumes inv: "time_inv st ts" and x: "truthy x"
  shows "time_inv (track_timestamp x st) (ts @ [the x])"
proof -
  from x obtain t where t: "x = Some t" "t \<noteq> []" by (cases x) (auto simp: truthy_def)
  from inv have s: "st_startedAt st = min_of ts" and e: "st_endedAt st = max_of ts"
    and ne: "list_all (\<lambda>t. t \<noteq> []) ts" by (simp_all add: time_inv_def)
  show ?thesis
  proof (cases "ts = []")
    case True
    with s e t show ?thesis
      by (simp add: time_inv_def track_timestamp_def truthy_def min_of_def max_of_def)
  next
    case False
    with s e have s': "st_startedAt st = Some (Min (set ts))" and e': "st_endedAt st = Some (Max (set ts))"
      by (simp_all add: min_of_def max_of_def)
    from ne False have ts: "truthy (st_startedAt st)" "truthy (st_endedAt st)"
      using min_of_truthy [OF ne] max_of_truthy [OF ne] s e by simp_all
    have a: "st_startedAt (track_timestamp x st) = Some (min t (Min (set ts)))"
      using t ts s' e' by (auto simp: track_timestamp_def Let_def min_def truthy_def)
    have b: "st_endedAt (track_timestamp x st) = Some (max t (Max (set ts)))"
      using t ts s' e' by (auto simp: track_timestamp_def Let_def max_def truthy_def)
    from a b False ne t show ?thesis
      by (simp add: time_inv_def min_of_def max_of_def)
  qed
qed

lemma track_timestamp_skip:
  "\<not> truthy x \<Longrightarrow> track_timestamp x st = st"
  by (simp add: track_timestamp_def)

lemma time_inv_cong:
  "st_startedAt st' = st_startedAt st \<Longrightarrow> st_endedAt st' = st_endedAt st \<Longrightarrow>
   time_inv st ts \<Longrightarrow> time_inv st' ts"
  by (simp add: time_inv_def)

lemma track_timestamp_fields:
  "st_startedAt (track_timestamp x (st\<lparr>st_sessionId := a\<rparr>)) = st_startedAt (track_timestamp x st)"
  "st_endedAt (track_timestamp x (st\<lparr>st_sessionId := a\<rparr>)) = st_endedAt (track_timestamp x st)"
  "st_startedAt (track_timestamp x (st\<lparr>st_cwd := b, st_projectPath := c\<rparr>)) = st_startedAt (track_timestamp x st)"
  "st_endedAt (track_timestamp x (st\<lparr>st_cwd := b, st_projectPath := c\<rparr>)) = st_endedAt (track_timestamp x st)"
  by (simp_all add: track_timestamp_def Let_def)

lemma parse_line_times:
  "st_startedAt (parse_line (Some r) st) =
     (if r_type r = Some ''summary'' \<or> r_type r = Some ''system'' \<or> r_isMeta r then st_startedAt st
      else st_startedAt (track_timestamp (r_timestamp r) st))"
  "st_endedAt (parse_line (Some r) st) =
     (if r_type r = Some ''summary'' \<or> r_type r = Some ''system'' \<or> r_isMeta r then st_endedAt st
      else st_endedAt (track_timestamp (r_timestamp r) st))"
  by (simp_all add: parse_line_def Let_def track_timestamp_fields split: option.splits)

lemma parse_line_inv:
  assumes "time_inv st ts"
  shows "time_inv (parse_line line st) (ts @ tracked_timestamps [line])"
proof (cases line)
  case None
  with assms show ?thesis by (simp add: parse_line_def)
next
  case (Some r)
  show ?thesis
  proof (cases "tracked r")
    case True
    then have "time_inv (track_timestamp (r_timestamp r) st) (ts @ [the (r_timestamp r)])"
      using track_timestamp_inv [OF assms] by (simp add: tracked_def)
    moreover from True have "st_startedAt (parse_line (Some r) st) = st_startedAt (track_timestamp (r_timestamp r) st)"
      "st_endedAt (parse_line (Some r) st) = st_endedAt (track_timestamp (r_timestamp r) st)"
      by (simp_all add: parse_line_times tracked_def)
    ultimately show ?thesis using Some True by (simp add: time_inv_def)
  next
    case False
    then have "st_startedAt (parse_line (Some r) st) = st_startedAt st"
      "st_endedAt (parse_line (Some r) st) = st_endedAt st"
      by (auto simp: parse_line_times tracked_def track_timestamp_skip)
    with assms Some False show ?thesis by (simp add: time_inv_def)
  qed
qed

lemma tracked_timestamps_Cons:
  "tracked_timestamps (l # ls) = tracked_timestamps [l] @ tracked_timestamps ls"
  by (cases l) simp_all

lemma fold_parse_line_inv:
  "time_inv st ts \<Longrightarrow> time_inv (fold parse_line lines st) (ts @ tracked_timestamps lines)"
proof (induction lines arbitrary: st ts)
  case Nil
  then show ?case by simp
next
  case (Cons l ls)
  from Cons.IH [OF parse_line_inv [OF Cons.prems, of l]]
  show ?case by (simp add: tracked_timestamps_Cons [of l ls])
qed

lemma parse_line_messages_untracked:
  "tracked_timestamps [line] = [] \<Longrightarrow> st_messages (parse_line line st) = st_messages st"
proof (cases line)
  case None
  then show ?thesis by (simp add: parse_line_def)
next
  case (Some r)
  assume "tracked_timestamps [line] = []"
  with Some have nt: "\<not> tracked r" by (simp split: if_splits)
  have m: "st_messages (track_timestamp x st') = st_messages st'" for x st'
    by (simp add: track_timestamp_def Let_def)
  show ?thesis
  proof (cases "r_type r = Some ''summary'' \<or> r_type r = Some ''system'' \<or> r_isMeta r")
    case True
    with Some show ?thesis by (auto simp: parse_line_def)
  next
    case False
    with nt have "\<not> truthy (r_timestamp r)" by (simp add: tracked_def)
    then have "parseMessage r sid = None" for sid by (simp add: parseMessage_def)
    with Some False show ?thesis by (simp add: parse_line_def Let_def m)
  qed
qed

lemma fold_parse_line_messages:
  "st_messages st = [] \<or> ts \<noteq> [] \<Longrightarrow>
   st_messages (fold parse_line lines st) = [] \<or> ts @ tracked_timestamps lines \<noteq> []"
proof (induction lines arbitrary: st ts)
  case Nil
  then show ?case by simp
next
  case (Cons l ls)
  have "st_messages (parse_line l st) = [] \<or> ts @ tracked_timestamps [l] \<noteq> []"
    using Cons.prems parse_line_messages_untracked [of l st] by auto
  from Cons.IH [OF this] show ?case by (simp add: tracked_timestamps_Cons [of l ls])
qed

text \<open>
  Claim C7, as amended. For every file that \<open>parseFile\<close> parses into a session,
  \<open>started_at\<close> and \<open>ended_at\<close> are the minimum and the maximum (as strings) of the time
  stamps of all records that are neither a summary, nor a system record, nor marked
  meta, and that carry a non-empty time stamp. These include records that are not
  retained as messages (other record types, records without text), but not system or
  meta records: the loop skips those before it looks at their time stamp.
\<close>

theorem parseFile_times_over_tracked_records:
  assumes "parseFile filePath (Some lines) = Some s"
  shows "tracked_timestamps lines \<noteq> [] \<and>
         ps_started_at s = Some (Min (set (tracked_timestamps lines))) \<and>
         ps_ended_at s = Some (Max (set (tracked_timestamps lines)))"
proof -
  let ?init = "\<lparr>st_messages = [], st_sessionId = None, st_title = None, st_cwd = None,
                 st_projectPath = None, st_startedAt = None, st_endedAt = None\<rparr>"
  have "time_inv ?init []" by (simp add: time_inv_def min_of_def max_of_def)
  from fold_parse_line_inv [OF this, of lines]
  have inv: "time_inv (fold parse_line lines ?init) (tracked_timestamps lines)" by simp
  have "st_messages (fold parse_line lines ?init) = [] \<or> [] @ tracked_timestamps lines \<noteq> []"
    by (rule fold_parse_line_messages) simp
  moreover from assms have "st_messages (fold parse_line lines ?init) \<noteq> []"
    by (auto simp: parseFile_def Let_def split: if_splits)
  ultimately have ne: "tracked_timestamps lines \<noteq> []" by simp
  from assms have "ps_started_at s = st_startedAt (fold parse_line lines ?init)"
    "ps_ended_at s = st_endedAt (fold parse_line lines ?init)"
    by (auto simp: parseFile_def Let_def split: if_splits)
  with inv ne show ?thesis by (simp add: time_inv_def min_of_def max_of_def)
qed

lemma ex_parse_some:
  "parseFile ''/logs/s1.jsonl'' (Some ex_lines) \<noteq> None"
  by code_simp

lemma ex_tracked:
  "Min (set (tracked_timestamps ex_lines)) = ''2025-01-01T10:00:00Z''"
  "Max (set (tracked_timestamps ex_lines)) = ''2025-01-01T10:01:00Z''"
  by code_simp+

text \<open>The sample transcript: a session from 10:00 to 10:01.\<close>

theorem parseFile_times_over_tracked_records_witness:
  "\<exists>s. parseFile ''/logs/s1.jsonl'' (Some ex_lines) = Some s \<and>
       ps_started_at s = Some ''2025-01-01T10:00:00Z'' \<and>
       ps_ended_at s = Some ''2025-01-01T10:01:00Z''"
proof -
  from ex_parse_some obtain s where s: "parseFile ''/logs/s1.jsonl'' (Some ex_lines) = Some s"
    by blast
  from parseFile_times_over_tracked_records [OF s] s show ?thesis
    by (simp add: ex_tracked)
qed

text \<open>
  Claim C7 as stated fails: the sample transcript has a system record stamped 09:00,
  the smallest time stamp any of its records carries, yet \<open>started_at\<close> is 10:00.
\<close>

theorem parseFile_ignores_system_timestamps:
  "map_option ps_started_at (parseFile ''/logs/s1.jsonl'' (Some ex_lines)) =
     Some (Some ''2025-01-01T10:00:00Z'') \<and>
   Min (set (all_timestamps ex_lines)) = ''2025-01-01T09:00:00Z''"
  by code_simp

section \<open>Properties of the import\<close>

lemma find_map_keyed:
  assumes "\<And>s. s_id (f s) = s_id s"
  shows "find (\<lambda>s. s_id s = sid) (map (\<lambda>s. if s_id s = sid then f s else s) xs) =
         map_option f (find (\<lambda>s. s_id s = sid) xs)"
  by (induction xs) (simp_all add: assms)

lemma s_id_import_row [simp]: "s_id (import_row rt input s) = s_id s"
  by (simp add: import_row_def)

lemma s_id_update_row [simp]: "s_id (update_row rt input s) = s_id s"
  by (simp add: update_row_def)

lemma stats_update_frame [simp]:
  "db_sessions (update_project_stats_update rt old new db) = db_sessions db"
  "db_messages (update_project_stats_update rt old new db) = db_messages db"
  "db_tags (update_project_stats_update rt old new db) = db_tags db"
  "db_session_tags (update_project_stats_update rt old new db) = db_session_tags db"
  by (simp_all add: update_project_stats_update_def split: option.splits)

lemma findById_stats_update [simp]:
  "findById sid (update_project_stats_update rt old new db) = findById sid db"
  by (simp add: findById_def)

lemma getOrCreate_frame:
  assumes "getOrCreate rt path db = (project, db1)"
  shows "project_known (Some (p_id project)) db1" and "db_sessions db1 = db_sessions db"
    and "db_messages db1 = db_messages db" and "db_tags db1 = db_tags db"
    and "db_session_tags db1 = db_session_tags db"
proof -
  show "project_known (Some (p_id project)) db1"
  proof (cases "find (\<lambda>p. p_path p = path) (db_projects db)")
    case None
    with assms show ?thesis
      by (auto simp: getOrCreate_def Let_def project_known_def)
  next
    case (Some existing)
    then have "existing \<in> set (db_projects db)" by (auto simp: find_Some_iff)
    with Some assms show ?thesis
      by (auto simp: getOrCreate_def project_known_def list_ex_iff)
  qed
  from assms show "db_sessions db1 = db_sessions db" "db_messages db1 = db_messages db"
    "db_tags db1 = db_tags db" "db_session_tags db1 = db_session_tags db"
    by (auto simp: getOrCreate_def Let_def split: option.splits)
qed

lemma message_create_frame:
  assumes "message_create rt input db = Inr db'"
  shows "db_sessions db' = db_sessions db \<and> db_tags db' = db_tags db \<and>
         db_session_tags db' = db_session_tags db \<and> db_projects db' = db_projects db"
  using assms by (auto simp: message_create_def split: option.splits if_splits)

lemma createMany_loop_frame:
  "createMany_loop rt created db inputs = Inr (n, db') \<Longrightarrow>
   db_sessions db' = db_sessions db \<and> db_tags db' = db_tags db \<and>
   db_session_tags db' = db_session_tags db \<and> db_projects db' = db_projects db"
proof (induction inputs arbitrary: created db)
  case Nil
  then show ?case by simp
next
  case (Cons input rest)
  show ?case
  proof (cases "message_create rt input db")
    case (Inl e)
    with Cons.prems have "createMany_loop rt created db rest = Inr (n, db')"
      by (simp split: if_splits)
    then show ?thesis by (rule Cons.IH)
  next
    case (Inr db1)
    with Cons.prems have "createMany_loop rt (created + 1) db1 rest = Inr (n, db')" by simp
    from Cons.IH [OF this] message_create_frame [OF Inr] show ?thesis by simp
  qed
qed

lemma updateFromImport_stub:
  assumes "findById sid db = Some old" and "project_known (i_project_id input) db"
  shows "\<exists>db2. updateFromImport rt sid input db = Inr db2 \<and>
           findById sid db2 = Some (import_row rt input old) \<and>
           db_tags db2 = db_tags db \<and> db_session_tags db2 = db_session_tags db"
  using assms by (simp add: updateFromImport_def findById_def find_map_keyed)

lemma session_update_count:
  assumes "findById sid db = Some row"
  shows "findById sid (session_update rt sid
            \<lparr>u_ended_at = None, u_message_count = Some c, u_title = None, u_summary = None,
             u_is_title_auto_generated = None\<rparr> db) =
          Some (row\<lparr>s_message_count := c, s_updated_at := now_sql rt\<rparr>)"
    and "db_tags (session_update rt sid
            \<lparr>u_ended_at = None, u_message_count = Some c, u_title = None, u_summary = None,
             u_is_title_auto_generated = None\<rparr> db) = db_tags db"
    and "db_session_tags (session_update rt sid
            \<lparr>u_ended_at = None, u_message_count = Some c, u_title = None, u_summary = None,
             u_is_title_auto_generated = None\<rparr> db) = db_session_tags db"
  using assms
  by (simp_all add: session_update_def findById_def find_map_keyed update_row_def)

lemma importSession_stub:
  assumes old: "findById (ps_id parsed) db = Some old" and stub: "s_is_stub old"
    and run: "importSession rt withProjects parsed skipExisting db = (outcome, db')"
  shows "db_session_tags db' = db_session_tags db \<and> db_tags db' = db_tags db \<and>
         (\<exists>pid n. findById (ps_id parsed) db' =
            Some (old\<lparr>s_file_path := ps_file_path parsed, s_project_id := pid,
                      s_project_path := ps_project_path parsed, s_cwd := ps_cwd parsed,
                      s_started_at :=
                        (case ps_started_at parsed of None \<Rightarrow> now_iso rt | Some t \<Rightarrow> t),
                      s_ended_at := ps_ended_at parsed, s_message_count := n,
                      s_is_stub := False, s_updated_at := now_sql rt\<rparr>))"
proof -
  let ?sid = "ps_id parsed"
  obtain projectId db1 where p: "(projectId, db1) =
      (if withProjects \<and> truthy (ps_project_path parsed)
       then (let (project, d) = getOrCreate rt (the (ps_project_path parsed)) db
             in (Some (p_id project), d))
       else (None, db))"
    by (metis surj_pair)
  have known: "project_known projectId db1" and s1: "db_sessions db1 = db_sessions db"
    and t1: "db_tags db1 = db_tags db" and l1: "db_session_tags db1 = db_session_tags db"
  proof -
    show "project_known projectId db1"
    proof (cases "withProjects \<and> truthy (ps_project_path parsed)")
      case True
      obtain project d where g: "getOrCreate rt (the (ps_project_path parsed)) db = (project, d)"
        by (metis surj_pair)
      with True p have "projectId = Some (p_id project)" "db1 = d" by simp_all
      with getOrCreate_frame(1) [OF g] show ?thesis by simp
    next
      case False
      with p show ?thesis by (simp add: project_known_def)
    qed
    show "db_sessions db1 = db_sessions db" "db_tags db1 = db_tags db"
      "db_session_tags db1 = db_session_tags db"
    proof (atomize (full), cases "withProjects \<and> truthy (ps_project_path parsed)")
      case True
      obtain project d where g: "getOrCreate rt (the (ps_project_path parsed)) db = (project, d)"
        by (metis surj_pair)
      with True p have "db1 = d" by simp
      with getOrCreate_frame [OF g] show "db_sessions db1 = db_sessions db \<and>
          db_tags db1 = db_tags db \<and> db_session_tags db1 = db_session_tags db" by simp
    next
      case False
      with p show "db_sessions db1 = db_sessions db \<and>
          db_tags db1 = db_tags db \<and> db_session_tags db1 = db_session_tags db" by simp
    qed
  qed
  let ?input = "\<lparr>i_id = ps_id parsed, i_file_path = ps_file_path parsed,
                   i_project_id = projectId, i_project_path = ps_project_path parsed,
                   i_cwd = ps_cwd parsed,
                   i_started_at =
                     (case ps_started_at parsed of None \<Rightarrow> now_iso rt | Some t \<Rightarrow> t),
                   i_ended_at = ps_ended_at parsed,
                   i_message_count = Some (int (length (ps_messages parsed))),
                   i_title = ps_title parsed, i_summary = None,
                   i_is_title_auto_generated = Some (ps_title parsed \<noteq> None),
                   i_is_stub = None\<rparr>"
  from old s1 have old1: "findById ?sid db1 = Some old" by (simp add: findById_def)
  from updateFromImport_stub [OF old1, of ?input rt] known
  obtain db2 where u: "updateFromImport rt ?sid ?input db1 = Inr db2"
    and f2: "findById ?sid db2 = Some (import_row rt ?input old)"
    and t2: "db_tags db2 = db_tags db1" and l2: "db_session_tags db2 = db_session_tags db1"
    by auto
  from old stub have ex: "session_exists ?sid db" "isStub ?sid db"
    by (simp_all add: session_exists_def isStub_def)
  have step: "importSession rt withProjects parsed skipExisting db =
      (case createMany rt (map message_input (ps_messages parsed)) db2 of
         Inl e \<Rightarrow> (Inl e, db2)
       | Inr (created, db3) \<Rightarrow>
           (Inr (Some created),
            session_update rt ?sid
              \<lparr>u_ended_at = None, u_message_count = Some (int created),
               u_title = None, u_summary = None,
               u_is_title_auto_generated = None\<rparr> db3))"
    using ex u by (simp add: importSession_def Let_def flip: p)
  show ?thesis
  proof (cases "createMany rt (map message_input (ps_messages parsed)) db2")
    case (Inl e)
    with step run have d: "db' = db2" by simp
    from f2 have "findById ?sid db' =
        Some (old\<lparr>s_file_path := ps_file_path parsed, s_project_id := projectId,
                      s_project_path := ps_project_path parsed, s_cwd := ps_cwd parsed,
                      s_started_at :=
                        (case ps_started_at parsed of None \<Rightarrow> now_iso rt | Some t \<Rightarrow> t),
                      s_ended_at := ps_ended_at parsed, s_message_count := int (length (ps_messages parsed)),
                      s_is_stub := False, s_updated_at := now_sql rt\<rparr>)"
      unfolding d by (simp add: import_row_def)
    then have "\<exists>pid n. findById ?sid db' =
        Some (old\<lparr>s_file_path := ps_file_path parsed, s_project_id := pid,
                      s_project_path := ps_project_path parsed, s_cwd := ps_cwd parsed,
                      s_started_at :=
                        (case ps_started_at parsed of None \<Rightarrow> now_iso rt | Some t \<Rightarrow> t),
                      s_ended_at := ps_ended_at parsed, s_message_count := n,
                      s_is_stub := False, s_updated_at := now_sql rt\<rparr>)"
      by blast
    with t1 t2 l1 l2 d show ?thesis by simp
  next
    case (Inr r)
    obtain created db3 where r: "r = (created, db3)" by (cases r)
    from Inr r createMany_loop_frame [of rt 0 db2 _ created db3]
    have fr: "db_sessions db3 = db_sessions db2" "db_tags db3 = db_tags db2"
      "db_session_tags db3 = db_session_tags db2"
      by (simp_all add: createMany_def)
    from f2 fr(1) have f3: "findById ?sid db3 = Some (import_row rt ?input old)"
      by (simp add: findById_def)
    from step run Inr r have d: "db' = session_update rt ?sid
              \<lparr>u_ended_at = None, u_message_count = Some (int created),
               u_title = None, u_summary = None,
               u_is_title_auto_generated = None\<rparr> db3" by simp
    from session_update_count(1) [OF f3, of rt "int created"] have "findById ?sid db' =
        Some (old\<lparr>s_file_path := ps_file_path parsed, s_project_id := projectId,
                      s_project_path := ps_project_path parsed, s_cwd := ps_cwd parsed,
                      s_started_at :=
                        (case ps_started_at parsed of None \<Rightarrow> now_iso rt | Some t \<Rightarrow> t),
                      s_ended_at := ps_ended_at parsed, s_message_count := int created,
                      s_is_stub := False, s_updated_at := now_sql rt\<rparr>)"
      unfolding d by (simp add: import_row_def)
    then have "\<exists>pid n. findById ?sid db' =
        Some (old\<lparr>s_file_path := ps_file_path parsed, s_project_id := pid,
                      s_project_path := ps_project_path parsed, s_cwd := ps_cwd parsed,
                      s_started_at :=
                        (case ps_started_at parsed of None \<Rightarrow> now_iso rt | Some t \<Rightarrow> t),
                      s_ended_at := ps_ended_at parsed, s_message_count := n,
                      s_is_stub := False, s_updated_at := now_sql rt\<rparr>)"
      by blast
    with session_update_count(2,3) [OF f3, of rt "int created"] fr t1 t2 l1 l2 d
    show ?thesis by simp
  qed
qed


lemma parseFile_path:
  "parseFile filePath file = Some parsed \<Longrightarrow> ps_file_path parsed = filePath"
  by (auto simp: parseFile_def Let_def split: option.splits if_splits)

text \<open>
  Claim C8 (stub promotion keeps out-of-band metadata). When the parsed session exists
  as a stub, \<open>importFile\<close> leaves the tag associations and the tags as they were, and
  the session row afterwards is the old row with only the import metadata rewritten
  (file path, project id and path, working directory, start and end time stamps,
  message count), the stub flag cleared and the modification stamp \<open>updated_at\<close> set:
  title, summary, \<open>is_title_auto_generated\<close> and \<open>created_at\<close> are those of the stub. This
  holds whether the call returns or throws while inserting messages.
\<close>

theorem stub_promotion_keeps_user_metadata:
  assumes "parseFile filePath (readFile filePath) = Some parsed"
    and "findById (ps_id parsed) db = Some old" and "s_is_stub old"
    and "importFile rt withProjects readFile filePath skipExisting db = (outcome, db')"
  shows "db_session_tags db' = db_session_tags db \<and> db_tags db' = db_tags db \<and>
         (\<exists>pid n. findById (ps_id parsed) db' =
            Some (old\<lparr>s_file_path := filePath, s_project_id := pid,
                      s_project_path := ps_project_path parsed, s_cwd := ps_cwd parsed,
                      s_started_at :=
                        (case ps_started_at parsed of None \<Rightarrow> now_iso rt | Some t \<Rightarrow> t),
                      s_ended_at := ps_ended_at parsed, s_message_count := n,
                      s_is_stub := False, s_updated_at := now_sql rt\<rparr>))"
proof -
  from assms(1,4) have "importSession rt withProjects parsed skipExisting db = (outcome, db')"
    by (simp add: importFile_def)
  from importSession_stub [OF assms(2,3) this] parseFile_path [OF assms(1)]
  show ?thesis by simp
qed

lemma ex_parse_id:
  "map_option ps_id (parseFile ''/logs/s1.jsonl'' (Some ex_lines)) = Some ''s1''"
  by code_simp

text \<open>The sample stub, titled and tagged by the user, promoted by the sample transcript.\<close>

theorem stub_promotion_keeps_user_metadata_witness:
  "findById ''s1'' ex_stub_db = Some ex_stub \<and> s_is_stub ex_stub \<and>
   (\<exists>outcome db'.
      importFile ex_runtime True ex_readFile ''/logs/s1.jsonl'' True ex_stub_db = (outcome, db') \<and>
      db_session_tags db' = db_session_tags ex_stub_db \<and> db_tags db' = db_tags ex_stub_db \<and>
      map_option s_title (findById ''s1'' db') = Some (Some ''release plan'') \<and>
      map_option s_summary (findById ''s1'' db') = Some (Some ''notes'') \<and>
      map_option s_is_stub (findById ''s1'' db') = Some False)"
proof -
  from ex_parse_some obtain parsed where
    p: "parseFile ''/logs/s1.jsonl'' (ex_readFile ''/logs/s1.jsonl'') = Some parsed"
    by (auto simp: ex_readFile_def)
  with ex_parse_id have sid: "ps_id parsed = ''s1''" by (simp add: ex_readFile_def)
  have old: "findById (ps_id parsed) ex_stub_db = Some ex_stub"
    unfolding sid by (simp add: findById_def ex_stub_db_def ex_stub_def)
  have stub: "s_is_stub ex_stub" by (simp add: ex_stub_def)
  obtain outcome db' where
    run: "importFile ex_runtime True ex_readFile ''/logs/s1.jsonl'' True ex_stub_db = (outcome, db')"
    by (metis surj_pair)
  from stub_promotion_keeps_user_metadata [OF p old stub run]
  have "db_session_tags db' = db_session_tags ex_stub_db \<and> db_tags db' = db_tags ex_stub_db \<and>
      map_option s_title (findById ''s1'' db') = Some (Some ''release plan'') \<and>
      map_option s_summary (findById ''s1'' db') = Some (Some ''notes'') \<and>
      map_option s_is_stub (findById ''s1'' db') = Some False"
    unfolding sid by (auto simp: ex_stub_def)
  with old stub run sid show ?thesis by auto
qed

text \<open>
  Claim C1 against the code. The sample transcript imported twice with
  \<open>skipExisting = false\<close>: the second run returns 0 and adds no message row (every insert
  is skipped by the unique \<open>uuid\<close>), but it overwrites the session's message count, 2
  after the first run, with 0.
\<close>

theorem reimport_resets_message_count:
  "(let (r1, db1) = importFile ex_runtime True ex_readFile ''/logs/s1.jsonl'' False empty_db;
        (r2, db2) = importFile ex_runtime True ex_readFile ''/logs/s1.jsonl'' False db1
    in r1 = Inr (Some 2) \<and> r2 = Inr (Some 0) \<and> db_messages db2 = db_messages db1 \<and>
       map_option s_message_count (findById ''s1'' db1) = Some 2 \<and>
       map_option s_message_count (findById ''s1'' db2) = Some 0)"
  by code_simp

text \<open>
  Claim C3 against the code. The second \<open>importFile\<close> call on the sample transcript (with
  \<open>skipExisting = false\<close>) reaches message insertion; afterwards two message rows are
  stored for the session, and its persisted message count is 0, the number of rows this
  call inserted.
\<close>

theorem message_count_is_not_the_stored_total:
  "(let (r1, db1) = importFile ex_runtime True ex_readFile ''/logs/s1.jsonl'' True empty_db;
        (r2, db2) = importFile ex_runtime True ex_readFile ''/logs/s1.jsonl'' False db1
    in r2 = Inr (Some 0) \<and> count_messages ''s1'' db2 = 2 \<and>
       map_option s_message_count (findById ''s1'' db2) = Some 0)"
  by code_simp

text \<open>
  Claim C10 against the code. One file, imported with two messages, and a progress
  callback that throws: the callback runs inside the \<open>try\<close> block after the file has
  been counted as imported, so the \<open>catch\<close> block counts the same file as failed too,
  and \<open>imported + skipped + failed\<close> is 2 for 1 file.
\<close>

theorem importAll_counts_file_twice:
  "fst (importAll ex_runtime True ex_readFile ex_options [''/logs/s1.jsonl''] empty_db) =
     Inr \<lparr>totalFiles = 1, imported = 1, skipped = 0, failed = 1, totalMessages = 2,
          errors = [(''/logs/s1.jsonl'', ''write EPIPE'')], duration = 5\<rparr>"
  by code_simp

text \<open>
  When the progress callback returns for every file (or none is given), the counters of
  \<open>importAll\<close> partition the files and there is one error entry per failed file.
\<close>

lemma importAll_loop_counts:
  assumes "returns_normally (opt_onProgress opts)"
  shows "importAll_loop rt withProjects readFile opts n_files i files result db = (Inr r, db') \<Longrightarrow>
         imported r + skipped r + failed r =
           imported result + skipped result + failed result + length files \<and>
         length (errors r) + failed result = length (errors result) + failed r \<and>
         totalFiles r = totalFiles result"
proof (induction files arbitrary: i result db)
  case Nil
  then show ?case by simp
next
  case (Cons path rest)
  obtain outcome db1 where imp: "importFile rt withProjects readFile path
      (case opt_skipExisting opts of None \<Rightarrow> True | Some b \<Rightarrow> b) db = (outcome, db1)"
    by (metis surj_pair)
  show ?case
  proof (cases outcome)
    case (Inl e)
    let ?r2 = "result\<lparr>failed := failed result + 1,
                       errors := errors result @ [(path, error_message e)]\<rparr>"
    from Cons.prems imp Inl
    have "importAll_loop rt withProjects readFile opts n_files (i + 1) rest ?r2 db1 = (Inr r, db')"
      by (simp split: option.splits)
    from Cons.IH [OF this] show ?thesis by simp
  next
    case (Inr n)
    let ?counted = "(case n of
                       None \<Rightarrow> result\<lparr>skipped := skipped result + 1\<rparr>
                     | Some k \<Rightarrow>
                         if k = 0 then result\<lparr>skipped := skipped result + 1\<rparr>
                         else result\<lparr>imported := imported result + 1,
                                     totalMessages := totalMessages result + k\<rparr>)"
    have "importAll_loop rt withProjects readFile opts n_files (i + 1) rest ?counted db1 = (Inr r, db')"
    proof (cases "opt_onProgress opts")
      case None
      with Cons.prems imp Inr show ?thesis by (simp add: Let_def)
    next
      case (Some cb)
      with assms have "cb (i + 1) n_files (basename_jsonl rt path) = None"
        by (simp add: returns_normally_def)
      with Cons.prems imp Inr Some show ?thesis by (simp add: Let_def)
    qed
    from Cons.IH [OF this] show ?thesis by (auto split: option.splits if_splits)
  qed
qed

lemma importAll_counts_partition:
  assumes "returns_normally (opt_onProgress opts)"
    and "importAll rt withProjects readFile opts files db = (Inr r, db')"
  shows "imported r + skipped r + failed r = totalFiles r \<and> totalFiles r = length files \<and>
         length (errors r) = failed r"
proof -
  let ?init = "\<lparr>totalFiles = length files, imported = 0, skipped = 0, failed = 0,
              totalMessages = 0, errors = [], duration = 0\<rparr>"
  obtain x d where l: "importAll_loop rt withProjects readFile opts (length files) 0 files ?init db = (x, d)"
    by (metis surj_pair)
  with assms(2) obtain r0 where x: "x = Inr r0" and r: "r = r0\<lparr>duration := elapsed_ms rt\<rparr>"
    by (cases x) (auto simp: importAll_def)
  from importAll_loop_counts [OF assms(1) l [unfolded x]] r show ?thesis by simp
qed

section \<open>Properties of ChunkIndexer\<close>

lemma process_session_write_ok [simp]:
  "process_session (env\<lparr>write_ok := w\<rparr>) = process_session env"
  by (intro ext) (simp add: process_session_def Let_def split: option.splits)

lemma indexAll_loop_write_independent:
  "fst (indexAll_loop (env\<lparr>write_ok := w1\<rparr>) opts allSessions i result c1) =
   fst (indexAll_loop (env\<lparr>write_ok := w2\<rparr>) opts allSessions i result c2)"
proof (induction "length allSessions - i" arbitrary: i result c1 c2 rule: less_induct)
  case less
  let ?bs = "case io_batchSize opts of None \<Rightarrow> 10 | Some b \<Rightarrow> b"
  let ?batch = "take ?bs (drop i allSessions)"
  show ?case
  proof (cases "i < length allSessions")
    case False
    then show ?thesis
      by (subst indexAll_loop.simps, subst (2) indexAll_loop.simps) simp
  next
    case True
    show ?thesis
    proof (cases "?batch = []")
      case e: True
      with True show ?thesis
        by (subst indexAll_loop.simps, subst (2) indexAll_loop.simps) (simp add: Let_def)
    next
      case ne: False
      then have "0 < ?bs" by (cases ?bs) simp_all
      with True have dec: "length allSessions - (i + ?bs) < length allSessions - i" by simp
      show ?thesis
      proof (cases "case io_onProgress opts of
                      None \<Rightarrow> None
                    | Some progress \<Rightarrow>
                        progress (i + length ?batch) (length allSessions)
                          (Some (s_id (last ?batch)))")
        case (Some msg)
        with True ne show ?thesis
          by (subst indexAll_loop.simps, subst (2) indexAll_loop.simps) (simp add: Let_def)
      next
        case None
        with True ne less.hyps [OF dec] show ?thesis
          by (subst indexAll_loop.simps, subst (2) indexAll_loop.simps) (simp add: Let_def)
      qed
    qed
  qed
qed

lemma fst_finish_run:
  assumes "unlink_ok env"
  shows "fst (finish_run env ended) =
         (case fst ended of
            Inl e \<Rightarrow> Inl e
          | Inr result \<Rightarrow> Inr (result\<lparr>index_duration := index_elapsed_ms env\<rparr>))"
  using assms by (cases ended) (simp add: finish_run_def split: sum.splits)

text \<open>
  Claim C2, as amended. A failure to persist the checkpoint is not fatal:
  \<open>saveCheckpoint\<close> catches the error of the write, and \<open>indexAll\<close> goes on with the next
  batch. Provided the checkpoint file can be deleted at the end, \<open>indexAll\<close> returns the
  same outcome (the same counters, or the same error) whichever checkpoint writes fail
  as when they all succeed.
\<close>

theorem checkpoint_write_failure_not_fatal:
  assumes "unlink_ok env"
  shows "fst (indexAll (env\<lparr>write_ok := w\<rparr>) opts ckpt) =
         fst (indexAll (env\<lparr>write_ok := (\<lambda>i. True)\<rparr>) opts ckpt)"
proof (cases "findAll env")
  case None
  then show ?thesis by (simp add: indexAll_def)
next
  case (Some allSessions)
  define resumed where "resumed = load_checkpoint opts ckpt allSessions"
  define startIndex where "startIndex = (case resumed of None \<Rightarrow> 0 | Some (idx, n) \<Rightarrow> idx)"
  define result1 where "result1 =
      (case resumed of
         None \<Rightarrow> \<lparr>totalSessions = length allSessions, processedSessions = 0,
                  skippedSessions = 0, totalChunks = 0, index_errors = 0, index_duration = 0\<rparr>
       | Some (idx, n) \<Rightarrow>
           \<lparr>totalSessions = length allSessions, processedSessions = 0,
            skippedSessions = 0, totalChunks = 0, index_errors = 0, index_duration = 0\<rparr>
           \<lparr>processedSessions := n\<rparr>)"
  have run: "indexAll (env\<lparr>write_ok := v\<rparr>) opts ckpt =
      finish_run (env\<lparr>write_ok := v\<rparr>)
        (indexAll_loop (env\<lparr>write_ok := v\<rparr>) opts allSessions startIndex result1 ckpt)" for v
    using Some by (simp add: indexAll_def Let_def resumed_def startIndex_def result1_def)
  have u: "unlink_ok (env\<lparr>write_ok := v\<rparr>)" for v using assms by simp
  have same: "fst (indexAll_loop (env\<lparr>write_ok := w\<rparr>) opts allSessions startIndex result1 ckpt) =
      fst (indexAll_loop (env\<lparr>write_ok := (\<lambda>i. True)\<rparr>) opts allSessions startIndex result1 ckpt)"
    by (rule indexAll_loop_write_independent)
  have "fst (indexAll (env\<lparr>write_ok := w\<rparr>) opts ckpt) =
      (case fst (indexAll_loop (env\<lparr>write_ok := w\<rparr>) opts allSessions startIndex result1 ckpt) of
         Inl e \<Rightarrow> Inl e
       | Inr result \<Rightarrow> Inr (result\<lparr>index_duration := index_elapsed_ms env\<rparr>))"
    by (simp add: run fst_finish_run [OF u] cong: sum.case_cong)
  also have "\<dots> =
      (case fst (indexAll_loop (env\<lparr>write_ok := (\<lambda>i. True)\<rparr>) opts allSessions startIndex result1 ckpt) of
         Inl e \<Rightarrow> Inl e
       | Inr result \<Rightarrow> Inr (result\<lparr>index_duration := index_elapsed_ms env\<rparr>))"
    by (simp only: same)
  also have "\<dots> = fst (indexAll (env\<lparr>write_ok := (\<lambda>i. True)\<rparr>) opts ckpt)"
    by (simp add: run fst_finish_run [OF u] cong: sum.case_cong)
  finally show ?thesis .
qed

text \<open>
  Claim C2 as stated fails: in the sample run every checkpoint write throws, yet
  \<open>indexAll\<close> processes the second batch after the first and returns a result with both
  sessions processed and no error counted.
\<close>

theorem checkpoint_failure_does_not_abort:
  "indexAll ex_env ex_index_options None =
     (Inr \<lparr>totalSessions = 2, processedSessions = 2, skippedSessions = 0, totalChunks = 2,
           index_errors = 0, index_duration = 7\<rparr>, None)"
  by code_simp

text \<open>The sample run with only the first checkpoint write succeeding.\<close>

theorem checkpoint_write_failure_not_fatal_witness:
  "unlink_ok ex_env \<and>
   fst (indexAll (ex_env\<lparr>write_ok := (\<lambda>i. i = 0)\<rparr>) ex_index_options None) =
   fst (indexAll (ex_env\<lparr>write_ok := (\<lambda>i. True)\<rparr>) ex_index_options None)"
proof -
  have u: "unlink_ok ex_env" by (simp add: ex_env_def)
  from checkpoint_write_failure_not_fatal [OF u] u show ?thesis by simp
qed

end
